theory Spec2Isabelle
  imports Complex_Main "HOL-Library.Word"
begin

section \<open>Range segmentation of a projection histogram\<close>

text \<open>
  \<^verbatim>\<open>CharSegmentation.findRanges(projection, minGap)\<close> scans a histogram once. Its loop
  state is the list of closed ranges, the flag \<open>inRange\<close> and the start of the open
  range. A range is the pair of the fields \<open>start\<close> and \<open>end\<close> of the source.
\<close>

record range =
  range_start :: nat
  range_end :: nat

text \<open>
  The inner loop \<^verbatim>\<open>for (j = i; j < projection.length && projection[j] === 0; j++) gapSize++\<close>
  counts the zeros that follow position \<open>i\<close> without interruption.
\<close>

definition gapSize :: "int list \<Rightarrow> nat \<Rightarrow> nat" where
  "gapSize projection i = length (takeWhile (\<lambda>v. v = 0) (drop i projection))"

definition findRanges_step ::
  "int list \<Rightarrow> int \<Rightarrow> nat \<Rightarrow> range list \<times> bool \<times> nat \<Rightarrow> range list \<times> bool \<times> nat" where
  "findRanges_step projection minGap i st =
     (case st of (ranges, inRange, start) \<Rightarrow>
        if projection ! i > 0 then
          (if \<not> inRange then (ranges, True, i) else (ranges, inRange, start))
        else if inRange then
          (if int (gapSize projection i) \<ge> minGap \<or> i = length projection - 1
           then (ranges @ [\<lparr>range_start = start, range_end = i\<rparr>], False, start)
           else (ranges, inRange, start))
        else (ranges, inRange, start))"

definition findRanges_loop :: "int list \<Rightarrow> int \<Rightarrow> range list \<times> bool \<times> nat" where
  "findRanges_loop projection minGap =
     fold (findRanges_step projection minGap) [0..<length projection] ([], False, 0)"

definition findRanges :: "int list \<Rightarrow> int \<Rightarrow> range list" where
  "findRanges projection minGap =
     (case findRanges_loop projection minGap of (ranges, inRange, start) \<Rightarrow>
        if inRange then ranges @ [\<lparr>range_start = start, range_end = length projection\<rparr>]
        else ranges)"

section \<open>JavaScript numbers\<close>

text \<open>
  The classifiers compute with JavaScript numbers. A number is modelled as a real, one of
  the two infinities, or \<open>NaN\<close>; rounding and overflow of the 64-bit format are left out. The
  operations follow IEEE 754 on these values. Reading an array beyond its length gives
  \<^verbatim>\<open>undefined\<close>, which arithmetic turns into \<open>NaN\<close>: \<open>read_at\<close> is such a read.
\<close>

datatype number = Num real | PosInfinity | NegInfinity | NaN

fun js_neg :: "number \<Rightarrow> number" where
  "js_neg (Num a) = Num (- a)"
| "js_neg PosInfinity = NegInfinity"
| "js_neg NegInfinity = PosInfinity"
| "js_neg NaN = NaN"

fun js_add :: "number \<Rightarrow> number \<Rightarrow> number" where
  "js_add NaN _ = NaN"
| "js_add _ NaN = NaN"
| "js_add (Num a) (Num b) = Num (a + b)"
| "js_add PosInfinity NegInfinity = NaN"
| "js_add NegInfinity PosInfinity = NaN"
| "js_add PosInfinity _ = PosInfinity"
| "js_add _ PosInfinity = PosInfinity"
| "js_add NegInfinity _ = NegInfinity"
| "js_add _ NegInfinity = NegInfinity"

definition js_sub :: "number \<Rightarrow> number \<Rightarrow> number" where
  "js_sub x y = js_add x (js_neg y)"

fun js_sgn :: "number \<Rightarrow> int" where
  "js_sgn (Num a) = (if a > 0 then 1 else if a < 0 then - 1 else 0)"
| "js_sgn PosInfinity = 1"
| "js_sgn NegInfinity = - 1"
| "js_sgn NaN = 0"

fun js_mul :: "number \<Rightarrow> number \<Rightarrow> number" where
  "js_mul NaN _ = NaN"
| "js_mul _ NaN = NaN"
| "js_mul (Num a) (Num b) = Num (a * b)"
| "js_mul x y =
     (if js_sgn x * js_sgn y = 0 then NaN
      else if js_sgn x * js_sgn y > 0 then PosInfinity else NegInfinity)"

fun js_div :: "number \<Rightarrow> number \<Rightarrow> number" where
  "js_div NaN _ = NaN"
| "js_div _ NaN = NaN"
| "js_div (Num a) (Num b) =
     (if b \<noteq> 0 then Num (a / b)
      else if a = 0 then NaN else if a > 0 then PosInfinity else NegInfinity)"
| "js_div (Num a) _ = Num 0"
| "js_div x (Num b) = (if b \<ge> 0 then x else js_neg x)"
| "js_div _ _ = NaN"

fun js_sqrt :: "number \<Rightarrow> number" where
  "js_sqrt (Num a) = (if a \<ge> 0 then Num (sqrt a) else NaN)"
| "js_sqrt PosInfinity = PosInfinity"
| "js_sqrt _ = NaN"

fun js_lt :: "number \<Rightarrow> number \<Rightarrow> bool" where
  "js_lt NaN _ = False"
| "js_lt _ NaN = False"
| "js_lt (Num a) (Num b) = (a < b)"
| "js_lt _ NegInfinity = False"
| "js_lt PosInfinity _ = False"
| "js_lt _ _ = True"

definition js_le :: "number \<Rightarrow> number \<Rightarrow> bool" where
  "js_le x y = (x \<noteq> NaN \<and> y \<noteq> NaN \<and> (x = y \<or> js_lt x y))"

definition js_gt :: "number \<Rightarrow> number \<Rightarrow> bool" where
  "js_gt x y = js_lt y x"

definition Math_min :: "number \<Rightarrow> number \<Rightarrow> number" where
  "Math_min x y = (if x = NaN \<or> y = NaN then NaN else if js_lt y x then y else x)"

definition Math_max :: "number \<Rightarrow> number \<Rightarrow> number" where
  "Math_max x y = (if x = NaN \<or> y = NaN then NaN else if js_lt x y then y else x)"

definition read_at :: "number list \<Rightarrow> nat \<Rightarrow> number" where
  "read_at xs i = (if i < length xs then xs ! i else NaN)"

text \<open>
  \<^verbatim>\<open>Math.random()\<close> returns a number in \<open>[0, 1)\<close>. The source of randomness is an
  arbitrary sequence of reals, of which the \<open>i\<close>-th draw takes the fractional part; every
  sequence of draws in \<open>[0, 1)\<close> is obtained this way.
\<close>

definition Math_random :: "(nat \<Rightarrow> real) \<Rightarrow> nat \<Rightarrow> real" where
  "Math_random rnd i = frac (rnd i)"

section \<open>K-means clustering\<close>

text \<open>
  Both classifiers share \<^verbatim>\<open>euclideanDistance(a, b)\<close>, which runs over the indices of
  \<open>a\<close> and reads \<open>b\<close> at each of them.
\<close>

definition euclideanDistance :: "number list \<Rightarrow> number list \<Rightarrow> number" where
  "euclideanDistance a b =
     js_sqrt (fold (\<lambda>i sum. js_add sum (js_mul (js_sub (a ! i) (read_at b i)) (js_sub (a ! i) (read_at b i))))
                [0..<length a] (Num 0))"

record KMeans =
  kmeans_k :: nat
  centroids :: "number list list"
  maxIterations :: nat

definition new_KMeans :: "nat \<Rightarrow> KMeans" where
  "new_KMeans k = \<lparr>kmeans_k = k, centroids = [], maxIterations = 100\<rparr>"

datatype error = TypeError | SyntaxError

text \<open>
  \<^verbatim>\<open>findNearestCentroid\<close>: the first centroid at the least distance; index 0 when no
  distance is below \<open>Infinity\<close>.
\<close>

definition findNearestCentroid :: "number list list \<Rightarrow> number list \<Rightarrow> nat" where
  "findNearestCentroid cs point =
     snd (fold (\<lambda>i (minDist, nearestIndex).
                  let dist = euclideanDistance point (cs ! i)
                  in if js_lt dist minDist then (dist, i) else (minDist, nearestIndex))
            [0..<length cs] (PosInfinity, 0))"

definition calculateCentroid :: "number list list \<Rightarrow> number list" where
  "calculateCentroid points =
     (let dimensions = length (hd points);
          centroid = fold (\<lambda>point c. map (\<lambda>i. js_add (c ! i) (read_at point i)) [0..<dimensions])
                       points (replicate dimensions (Num 0))
      in map (\<lambda>v. js_div v (Num (real (length points)))) centroid)"

text \<open>
  \<^verbatim>\<open>checkConvergence\<close> answers false as soon as one centroid has moved by more than
  the threshold \<open>0.001\<close>.
\<close>

definition checkConvergence :: "number list list \<Rightarrow> number list list \<Rightarrow> bool" where
  "checkConvergence oldCentroids newCentroids =
     list_all (\<lambda>i. \<not> js_gt (euclideanDistance (oldCentroids ! i) (newCentroids ! i)) (Num (1 / 1000)))
       [0..<length oldCentroids]"

text \<open>
  The seeding \<^verbatim>\<open>initializeCentroids\<close>. One round of its \<^verbatim>\<open>while\<close> loop computes for every
  point the squared distance to the nearest centroid chosen so far, draws
  \<open>random = Math.random() * sumDistances\<close>, and walks through the points, subtracting
  their distances, until \<open>random \<le> 0\<close>; the point reached is pushed. A walk that reaches the
  end of the data pushes nothing.
\<close>

fun pickNext :: "number \<Rightarrow> (number \<times> number list) list \<Rightarrow> number list list \<Rightarrow> number list list" where
  "pickNext random [] cs = cs"
| "pickNext random ((d, point) # rest) cs =
     (let random' = js_sub random d
      in if js_le random' (Num 0) then cs @ [point] else pickNext random' rest cs)"

definition seedDistances :: "number list list \<Rightarrow> number list list \<Rightarrow> number list" where
  "seedDistances data cs =
     map (\<lambda>point.
            let minDist = fold (\<lambda>centroid minDist. Math_min minDist (euclideanDistance point centroid))
                            cs PosInfinity
            in js_mul minDist minDist) data"

definition seedRound :: "real \<Rightarrow> number list list \<Rightarrow> number list list \<Rightarrow> number list list" where
  "seedRound r data cs =
     (let distances = seedDistances data cs;
          sumDistances = fold (\<lambda>b a. js_add a b) distances (Num 0);
          random = js_mul (Num r) sumDistances
      in pickNext random (zip distances data) cs)"

text \<open>
  The \<^verbatim>\<open>while (centroids.length < this.k)\<close> loop has no bound of its own. It is run with
  fuel, one unit for each round; \<open>None\<close> is the loop that has not ended when the fuel
  is used up. The second component counts the draws taken from the random source.
\<close>

fun seedLoop ::
  "nat \<Rightarrow> (nat \<Rightarrow> real) \<Rightarrow> nat \<Rightarrow> nat \<Rightarrow> number list list \<Rightarrow> number list list
     \<Rightarrow> (number list list \<times> nat) option" where
  "seedLoop fuel rnd pos k data cs =
     (if length cs < k then
        (case fuel of
           0 \<Rightarrow> None
         | Suc fuel' \<Rightarrow> seedLoop fuel' rnd (Suc pos) k data (seedRound (Math_random rnd pos) data cs))
      else Some (cs, pos))"

definition initializeCentroids ::
  "nat \<Rightarrow> (nat \<Rightarrow> real) \<Rightarrow> nat \<Rightarrow> nat \<Rightarrow> number list list \<Rightarrow> (number list list \<times> nat) option" where
  "initializeCentroids fuel rnd pos k data =
     (let n = length data;
          first = data ! nat \<lfloor>Math_random rnd pos * real n\<rfloor>
      in seedLoop fuel rnd (Suc pos) k data [first])"

text \<open>
  One Lloyd iteration. Every point is pushed to \<open>clusters[clusterIndex]\<close>; with no such
  cluster (\<open>k = 0\<close>) the call of \<^verbatim>\<open>push\<close> on \<^verbatim>\<open>undefined\<close> throws a \<open>TypeError\<close>.
  An empty cluster keeps its previous centroid.
\<close>

definition assignClusters ::
  "nat \<Rightarrow> number list list \<Rightarrow> number list list \<Rightarrow> error + number list list list" where
  "assignClusters k cs data =
     fold (\<lambda>point acc.
             case acc of
               Inl e \<Rightarrow> Inl e
             | Inr clusters \<Rightarrow>
                 (let clusterIndex = findNearestCentroid cs point
                  in if clusterIndex < length clusters
                     then Inr (clusters[clusterIndex := clusters ! clusterIndex @ [point]])
                     else Inl TypeError))
       data (Inr (replicate k []))"

definition updateCentroids :: "nat \<Rightarrow> number list list \<Rightarrow> number list list list \<Rightarrow> number list list" where
  "updateCentroids k cs clusters =
     map (\<lambda>i. if length (clusters ! i) > 0 then calculateCentroid (clusters ! i) else cs ! i) [0..<k]"

text \<open>
  The loop \<^verbatim>\<open>while (!converged && iterations < this.maxIterations)\<close> of \<^verbatim>\<open>fit\<close>; its
  state is the centroids, the iteration count and the flag.
\<close>

function lloydLoop ::
  "nat \<Rightarrow> nat \<Rightarrow> number list list \<Rightarrow> number list list \<Rightarrow> nat \<Rightarrow> bool
     \<Rightarrow> error + (number list list \<times> nat)" where
  "lloydLoop maxIter k data cs iterations converged =
     (if \<not> converged \<and> iterations < maxIter then
        (case assignClusters k cs data of
           Inl e \<Rightarrow> Inl e
         | Inr clusters \<Rightarrow>
             (let newCentroids = updateCentroids k cs clusters
              in lloydLoop maxIter k data newCentroids (Suc iterations)
                   (checkConvergence cs newCentroids)))
      else Inr (cs, iterations))"
  by pat_completeness auto
termination
  by (relation "measure (\<lambda>(maxIter, k, data, cs, iterations, converged). maxIter - iterations)") auto

text \<open>
  \<^verbatim>\<open>fit(data)\<close> returns the centroids and leaves them in the object. The result is
  \<open>None\<close> when the seeding has not ended within the fuel, \<open>Some (Inl e)\<close> when the call
  throws, and otherwise the returned array with the updated object and the number of
  Lloyd iterations run.
\<close>

definition fit ::
  "nat \<Rightarrow> (nat \<Rightarrow> real) \<Rightarrow> KMeans \<Rightarrow> number list list
     \<Rightarrow> (error + (number list list \<times> KMeans \<times> nat)) option" where
  "fit fuel rnd this data =
     (if length data = 0 then Some (Inr ([], this, 0))
      else
        (case initializeCentroids fuel rnd 0 (kmeans_k this) data of
           None \<Rightarrow> None
         | Some (cs, pos) \<Rightarrow>
             (case lloydLoop (maxIterations this) (kmeans_k this) data cs 0 False of
                Inl e \<Rightarrow> Some (Inl e)
              | Inr (cs', iterations) \<Rightarrow> Some (Inr (cs', this\<lparr>centroids := cs'\<rparr>, iterations)))))"

declare seedLoop.simps [simp del]
declare lloydLoop.simps [simp del]

section \<open>K-nearest-neighbour classifier\<close>

text \<open>
  A JavaScript \<^verbatim>\<open>Map\<close> keeps its keys in insertion order: an association list, in which
  \<open>map_set\<close> replaces the value of a key in place or appends a new key.
\<close>

fun map_set :: "'k \<Rightarrow> 'v \<Rightarrow> ('k \<times> 'v) list \<Rightarrow> ('k \<times> 'v) list" where
  "map_set k v [] = [(k, v)]"
| "map_set k v ((k', v') # m) = (if k = k' then (k, v) # m else (k', v') # map_set k v m)"

text \<open>
  \<^verbatim>\<open>Array.prototype.sort\<close> belongs to the platform. With a comparison function that is
  not consistent (one that is not transitive, or that returns \<open>NaN\<close>) the order it produces is
  implementation-defined. It is a parameter of every function that sorts: \<open>Array_sort\<close> takes
  the comparison function, which returns a number, and the array, and returns the sorted
  array.
\<close>

record FeatureVector =
  features :: "number list"
  label :: "string option"

record KNN =
  knn_k :: nat
  knn_trainingData :: "FeatureVector list"

record Neighbor =
  neighbor_label :: string
  distance :: number

record Prediction =
  prediction_label :: "string option"
  prediction_confidence :: number

text \<open>
  The test \<^verbatim>\<open>if (sample.label)\<close> passes for a label that is present and not the empty
  string. The distances are sorted with the comparison \<open>a.distance - b.distance\<close>.
\<close>

definition knn_distances :: "KNN \<Rightarrow> number list \<Rightarrow> Neighbor list" where
  "knn_distances this fs =
     concat (map (\<lambda>sample.
                    let dist = euclideanDistance fs (features sample)
                    in (case label sample of
                          Some l \<Rightarrow> if l \<noteq> [] then [\<lparr>neighbor_label = l, distance = dist\<rparr>] else []
                        | None \<Rightarrow> []))
              (knn_trainingData this))"

definition kNearest ::
  "((Neighbor \<Rightarrow> Neighbor \<Rightarrow> number) \<Rightarrow> Neighbor list \<Rightarrow> Neighbor list)
     \<Rightarrow> KNN \<Rightarrow> number list \<Rightarrow> Neighbor list" where
  "kNearest Array_sort this fs =
     (let distances = Array_sort (\<lambda>a b. js_sub (distance a) (distance b)) (knn_distances this fs)
      in take (min (knn_k this) (length distances)) distances)"

definition predict ::
  "((Neighbor \<Rightarrow> Neighbor \<Rightarrow> number) \<Rightarrow> Neighbor list \<Rightarrow> Neighbor list)
     \<Rightarrow> KNN \<Rightarrow> number list \<Rightarrow> string option" where
  "predict Array_sort this fs =
     (if length (knn_trainingData this) = 0 then None
      else
        (let votes = fold (\<lambda>neighbor votes.
                             let count = (case map_of votes (neighbor_label neighbor) of
                                            Some c \<Rightarrow> c | None \<Rightarrow> (0 :: nat))
                             in map_set (neighbor_label neighbor) (count + 1) votes)
                       (kNearest Array_sort this fs) []
         in snd (fold (\<lambda>(l, count) (maxVotes, predictedLabel).
                         if count > maxVotes then (count, Some l) else (maxVotes, predictedLabel))
                   votes (0, None))))"

text \<open>
  \<^verbatim>\<open>predictWithConfidence\<close> weights each neighbour by \<open>1 / (distance + 0.001)\<close>. In
  \<^verbatim>\<open>votes.get(label) || 0\<close> a stored weight that is \<open>0\<close> or \<open>NaN\<close> is replaced by \<open>0\<close>.
\<close>

definition predictWithConfidence ::
  "((Neighbor \<Rightarrow> Neighbor \<Rightarrow> number) \<Rightarrow> Neighbor list \<Rightarrow> Neighbor list)
     \<Rightarrow> KNN \<Rightarrow> number list \<Rightarrow> Prediction" where
  "predictWithConfidence Array_sort this fs =
     (if length (knn_trainingData this) = 0 then \<lparr>prediction_label = None, prediction_confidence = Num 0\<rparr>
      else
        (let (votes, totalWeight) =
               fold (\<lambda>neighbor (votes, totalWeight).
                       let weight = js_div (Num 1) (js_add (distance neighbor) (Num (1 / 1000)));
                           current = (case map_of votes (neighbor_label neighbor) of
                                        Some w \<Rightarrow> if w = NaN \<or> w = Num 0 then Num 0 else w
                                      | None \<Rightarrow> Num 0)
                       in (map_set (neighbor_label neighbor) (js_add current weight) votes,
                           js_add totalWeight weight))
                 (kNearest Array_sort this fs) ([], Num 0);
             (maxWeight, predictedLabel) =
               fold (\<lambda>(l, weight) (maxWeight, predictedLabel).
                       if js_gt weight maxWeight then (weight, Some l) else (maxWeight, predictedLabel))
                 votes (Num 0, None);
             confidence = (if js_gt totalWeight (Num 0) then js_div maxWeight totalWeight else Num 0)
         in \<lparr>prediction_label = predictedLabel, prediction_confidence = confidence\<rparr>))"

section \<open>Images and projection profiles\<close>

text \<open>
  An \<^verbatim>\<open>ImageData\<close> holds its width, its height and the RGBA samples, one byte each, row
  by row. Reading \<open>data[i]\<close> beyond the array gives \<^verbatim>\<open>undefined\<close>, for which both tests
  \<open>< 128\<close> and \<open>>= 128\<close> are false: \<open>sample\<close> is the read, \<open>None\<close> for \<^verbatim>\<open>undefined\<close>.
\<close>

record ImageData =
  width :: nat
  height :: nat
  data :: "8 word list"

definition sample :: "ImageData \<Rightarrow> nat \<Rightarrow> nat option" where
  "sample img i = (if i < length (data img) then Some (unat (data img ! i)) else None)"

definition below128 :: "nat option \<Rightarrow> bool" where
  "below128 v = (case v of Some b \<Rightarrow> b < 128 | None \<Rightarrow> False)"

definition atLeast128 :: "nat option \<Rightarrow> bool" where
  "atLeast128 v = (case v of Some b \<Rightarrow> b \<ge> 128 | None \<Rightarrow> False)"

record ProjectionProfile =
  horizontal :: "nat list"
  vertical :: "nat list"

text \<open>
  The pixel \<open>p\<close> (counted row by row) is foreground when its red sample is below 128.
  \<^verbatim>\<open>calculateProjection\<close> visits the pixels row by row and, for a foreground pixel at
  \<open>(x, y)\<close>, increments \<open>horizontal[y]\<close> and \<open>vertical[x]\<close>.
\<close>

definition foregroundAt :: "ImageData \<Rightarrow> nat \<Rightarrow> bool" where
  "foregroundAt img p = below128 (sample img (p * 4))"

definition projection_step :: "ImageData \<Rightarrow> nat \<Rightarrow> nat \<Rightarrow> nat list \<times> nat list \<Rightarrow> nat list \<times> nat list" where
  "projection_step img y x hv =
     (case hv of (h, v) \<Rightarrow>
        let idx = (y * width img + x) * 4
        in if below128 (sample img idx) then (h[y := h ! y + 1], v[x := v ! x + 1]) else (h, v))"

definition calculateProjection :: "ImageData \<Rightarrow> ProjectionProfile" where
  "calculateProjection img =
     (case fold (\<lambda>y. fold (projection_step img y) [0..<width img]) [0..<height img]
             (replicate (height img) 0, replicate (width img) 0) of
        (h, v) \<Rightarrow> \<lparr>horizontal = h, vertical = v\<rparr>)"

definition foregroundCount :: "ImageData \<Rightarrow> nat" where
  "foregroundCount img =
     length (filter (foregroundAt img) [0..<width img * height img])"

text \<open>The invariant of the two loops: both arrays keep their lengths and sum to \<open>n\<close>.\<close>

definition proj_inv :: "nat \<Rightarrow> nat \<Rightarrow> nat \<Rightarrow> nat list \<times> nat list \<Rightarrow> bool" where
  "proj_inv W H n hv = (length (fst hv) = H \<and> length (snd hv) = W \<and> sum_list (fst hv) = n \<and> sum_list (snd hv) = n)"


section \<open>Recognition results and the two correction passes\<close>

text \<open>
  A recognition result is a \<^verbatim>\<open>CharacterItem\<close> of the base recognizer, extended by the
  segmentation score, the classifier confidence and the cluster of the glyph. The
  recognizer delivers confidences between 0 and 100; they are reals here.
\<close>

datatype source = ocr | manual

record bbox =
  bbox_x :: real
  bbox_y :: real
  bbox_width :: real
  bbox_height :: real

record CharacterItem =
  item_id :: string
  char :: string
  bbox :: bbox
  confidence :: real
  item_imageData :: string
  source :: source
  category :: "string option"

record EnhancedOCRResult = CharacterItem +
  segmentationScore :: real
  mlConfidence :: real
  clusterId :: "nat option"

text \<open>
  Both passes change the result objects in place, and the arrays they build (the
  clusters, the sorted copy) hold references to these objects. The store is the list
  \<open>results\<close>; an object is referred to by its position in it.

  \<^verbatim>\<open>clusterBasedCorrection\<close> first groups the results that have a cluster by their
  \<open>clusterId\<close>, in a \<^verbatim>\<open>Map\<close>.
\<close>

definition groupByCluster_step ::
  "EnhancedOCRResult list \<Rightarrow> nat \<Rightarrow> (nat \<times> nat list) list \<Rightarrow> (nat \<times> nat list) list" where
  "groupByCluster_step results i clusters =
     (case clusterId (results ! i) of
        None \<Rightarrow> clusters
      | Some cid \<Rightarrow>
          (let cluster = (case map_of clusters cid of Some c \<Rightarrow> c | None \<Rightarrow> [])
           in map_set cid (cluster @ [i]) clusters))"

definition groupByCluster :: "EnhancedOCRResult list \<Rightarrow> (nat \<times> nat list) list" where
  "groupByCluster results = fold (groupByCluster_step results) [0..<length results] []"

definition charCounts_step ::
  "EnhancedOCRResult list \<Rightarrow> nat \<Rightarrow> (string \<times> nat) list \<Rightarrow> (string \<times> nat) list" where
  "charCounts_step store i counts =
     (let count = (case map_of counts (char (store ! i)) of Some c \<Rightarrow> c | None \<Rightarrow> 0)
      in map_set (char (store ! i)) (count + 1) counts)"

definition charCounts :: "EnhancedOCRResult list \<Rightarrow> nat list \<Rightarrow> (string \<times> nat) list" where
  "charCounts store cluster = fold (charCounts_step store) cluster []"

definition mostCommon :: "(string \<times> nat) list \<Rightarrow> nat \<times> string" where
  "mostCommon counts =
     fold (\<lambda>(c, count) (maxCount, mostCommonChar).
             if count > maxCount then (count, c) else (maxCount, mostCommonChar))
       counts (0, [])"

definition correctItem :: "string \<Rightarrow> EnhancedOCRResult \<Rightarrow> EnhancedOCRResult" where
  "correctItem mostCommonChar item =
     (if char item \<noteq> mostCommonChar \<and> confidence item < 50
      then item\<lparr>char := mostCommonChar, mlConfidence := max (mlConfidence item) (6 / 10)\<rparr>
      else item)"

definition correctCluster :: "nat list \<Rightarrow> EnhancedOCRResult list \<Rightarrow> EnhancedOCRResult list" where
  "correctCluster cluster store =
     (if length cluster < 2 then store
      else
        (case mostCommon (charCounts store cluster) of
           (maxCount, mostCommonChar) \<Rightarrow>
             if real maxCount > real (length cluster) / 2
             then fold (\<lambda>i store. store[i := correctItem mostCommonChar (store ! i)]) cluster store
             else store))"

definition clusterBasedCorrection :: "EnhancedOCRResult list \<Rightarrow> EnhancedOCRResult list" where
  "clusterBasedCorrection results =
     fold (\<lambda>(cid, cluster) store. correctCluster cluster store) (groupByCluster results) results"

text \<open>
  The words of the claim about this pass: the members of a cluster, the number of
  members that carry a character, and a character that occurs in strictly more than half
  of the members.
\<close>

definition clusterMembers :: "nat \<Rightarrow> EnhancedOCRResult list \<Rightarrow> EnhancedOCRResult list" where
  "clusterMembers cid results = filter (\<lambda>r. clusterId r = Some cid) results"

definition occurrences :: "string \<Rightarrow> EnhancedOCRResult list \<Rightarrow> nat" where
  "occurrences c members = length (filter (\<lambda>r. char r = c) members)"

definition strictMajority :: "string \<Rightarrow> EnhancedOCRResult list \<Rightarrow> bool" where
  "strictMajority c members = (length members < 2 * occurrences c members)"

text \<open>
  Notions for the proofs about the cluster pass: the positions of a cluster in the
  store, the number of positions of a cluster that carry a character, and what the pass
  decides for one member. Two results serve as sample inputs.
\<close>

definition indicesOf :: "EnhancedOCRResult list \<Rightarrow> nat \<Rightarrow> nat \<Rightarrow> nat list" where
  "indicesOf results n cid = filter (\<lambda>i. clusterId (results ! i) = Some cid) [0..<n]"

definition countIn :: "EnhancedOCRResult list \<Rightarrow> nat list \<Rightarrow> string \<Rightarrow> nat" where
  "countIn store cluster c = length (filter (\<lambda>i. char (store ! i) = c) cluster)"

definition decided :: "EnhancedOCRResult list \<Rightarrow> EnhancedOCRResult \<Rightarrow> EnhancedOCRResult \<Rightarrow> bool" where
  "decided members r r' =
     ((\<forall>c. strictMajority c members \<longrightarrow> r' = correctItem c r)
      \<and> ((\<forall>c. \<not> strictMajority c members) \<longrightarrow> r' = r))"

definition sampleResult :: "string \<Rightarrow> real \<Rightarrow> real \<Rightarrow> real \<Rightarrow> nat option \<Rightarrow> EnhancedOCRResult" where
  "sampleResult c conf x y cid =
     \<lparr>item_id = [], char = c,
      bbox = \<lparr>bbox_x = x, bbox_y = y, bbox_width = 10, bbox_height = 10\<rparr>,
      confidence = conf, item_imageData = [], source = ocr, category = None,
      segmentationScore = 1 / 2, mlConfidence = conf / 100, clusterId = cid\<rparr>"

definition sampleResults :: "EnhancedOCRResult list" where
  "sampleResults =
     [sampleResult ''A'' 30 0 0 (Some 0), sampleResult ''B'' 40 12 0 (Some 1),
      sampleResult ''A'' 90 24 0 (Some 0), sampleResult ''B'' 45 36 0 (Some 0)]"








section \<open>The training data of the engine\<close>

text \<open>
  The engine keeps the list of training samples. Of the object, the model holds this list
  and the lines that \<^verbatim>\<open>console.error\<close> has written.

  \<^verbatim>\<open>importTrainingData(data)\<close> assigns \<^verbatim>\<open>JSON.parse(data)\<close> to the list inside a
  \<^verbatim>\<open>try\<close> block, and its \<^verbatim>\<open>catch\<close> block writes to the console. \<^verbatim>\<open>JSON.parse\<close> belongs to
  the platform; it is a parameter here, with \<open>Inl SyntaxError\<close> for the exception it throws on a
  string that does not parse. The second component of the result is how the call ends
  for its caller: \<open>Inr ()\<close> is the normal return of the \<^verbatim>\<open>void\<close> method, \<open>Inl e\<close> an
  exception that reaches the caller.
\<close>

record TrainingSample =
  sample_features :: "number list"
  sample_label :: string

record EnhancedOCREngine =
  trainingData :: "TrainingSample list"
  console_error :: "string list"

definition importTrainingData ::
  "(string \<Rightarrow> error + TrainingSample list) \<Rightarrow> string \<Rightarrow> EnhancedOCREngine
     \<Rightarrow> EnhancedOCREngine \<times> (error + unit)" where
  "importTrainingData JSON_parse str this =
     (case JSON_parse str of
        Inr parsed \<Rightarrow> (this\<lparr>trainingData := parsed\<rparr>, Inr ())
      | Inl e \<Rightarrow>
          (this\<lparr>console_error := console_error this @ [''Failed to import training data:'']\<rparr>,
           Inr ()))"

text \<open>
  A sample engine with one stored sample, and a parser that accepts the empty array
  \<^verbatim>\<open>[]\<close> and rejects every other string; on \<^verbatim>\<open>[]\<close> and on \<^verbatim>\<open>{\<close> it agrees with
  \<^verbatim>\<open>JSON.parse\<close>.
\<close>

definition sampleEngine :: EnhancedOCREngine where
  "sampleEngine =
     \<lparr>trainingData = [\<lparr>sample_features = [Num 1, Num 0], sample_label = ''A''\<rparr>],
      console_error = []\<rparr>"

definition parseEmptyArrayOnly :: "string \<Rightarrow> error + TrainingSample list" where
  "parseEmptyArrayOnly str = (if str = ''[]'' then Inr [] else Inl SyntaxError)"

section \<open>Binary64 arithmetic\<close>

text \<open>
  The threshold of Otsu's method depends on the rounding of the numbers: the luma is
  rounded before \<^verbatim>\<open>Math.round\<close> sees it, and the variances of two thresholds are compared
  after rounding. So the arithmetic of that method is modelled with its rounding. A finite
  number is a real that the binary64 format represents: a multiple of \<open>2^(e-52)\<close> below
  \<open>2^(e+1)\<close> in absolute value, for an exponent \<open>e\<close> from \<open>-1022\<close> to \<open>1023\<close>. The two zeros of the
  format are not distinguished.

  \<open>pow2 e\<close> is \<open>2^e\<close> for an integer \<open>e\<close>, and \<open>roundEven\<close> rounds a real to the nearest
  integer, a half to the even neighbour.
\<close>

definition pow2 :: "int \<Rightarrow> real" where
  "pow2 e = (if 0 \<le> e then 2 ^ nat e else 1 / 2 ^ nat (- e))"

definition roundEven :: "real \<Rightarrow> int" where
  "roundEven x =
     (let f = \<lfloor>x\<rfloor>
      in if x - of_int f < 1 / 2 then f
         else if x - of_int f > 1 / 2 then f + 1
         else if even f then f else f + 1)"

text \<open>
  The exponent of a positive real \<open>x\<close> is the integer \<open>e\<close> with \<open>2^e \<le> x < 2^(e+1)\<close>. It is found
  by halving a real that is at least 1, and by doubling one below 1.
\<close>

function exponentUp :: "real \<Rightarrow> int" where
  "exponentUp x = (if x < 2 then 0 else exponentUp (x / 2) + 1)"
  by pat_completeness auto
termination
proof (relation "measure (\<lambda>x. nat \<lfloor>x\<rfloor>)")
  show "wf (measure (\<lambda>x. nat \<lfloor>x\<rfloor>))" by simp
next
  fix x :: real
  assume "\<not> x < 2"
  then have x: "2 \<le> x" by simp
  have "x / 2 \<le> x - 1" using x by simp
  then have "\<lfloor>x / 2\<rfloor> \<le> \<lfloor>x - 1\<rfloor>" by (rule floor_mono)
  then have "\<lfloor>x / 2\<rfloor> < \<lfloor>x\<rfloor>" by simp
  moreover have "0 < \<lfloor>x\<rfloor>" using x by simp
  ultimately show "(x / 2, x) \<in> measure (\<lambda>x. nat \<lfloor>x\<rfloor>)" by simp
qed

declare exponentUp.simps [simp del]

function exponentDown :: "real \<Rightarrow> int" where
  "exponentDown x = (if x \<le> 0 \<or> 1 \<le> x then 0 else exponentDown (2 * x) - 1)"
  by pat_completeness auto
termination
proof (relation "measure (\<lambda>x. nat \<lceil>1 / x\<rceil>)")
  show "wf (measure (\<lambda>x. nat \<lceil>1 / x\<rceil>))" by simp
next
  fix x :: real
  assume "\<not> (x \<le> 0 \<or> 1 \<le> x)"
  then have x: "0 < x" "x < 1" by simp_all
  then have big: "1 < 1 / x" by simp
  then have c: "2 \<le> \<lceil>1 / x\<rceil>" by linarith
  have "1 / (2 * x) = (1 / x) / 2" by simp
  also have "\<dots> \<le> of_int \<lceil>1 / x\<rceil> / 2" by (simp add: divide_right_mono)
  finally have "\<lceil>1 / (2 * x)\<rceil> \<le> \<lceil>of_int \<lceil>1 / x\<rceil> / (2 :: real)\<rceil>" by (rule ceiling_mono)
  also have "\<dots> < \<lceil>1 / x\<rceil>" using c by linarith
  finally show "(2 * x, x) \<in> measure (\<lambda>x. nat \<lceil>1 / x\<rceil>)" using c x by simp
qed

declare exponentDown.simps [simp del]

definition exponent :: "real \<Rightarrow> int" where
  "exponent x = (if 1 \<le> x then exponentUp x else exponentDown x)"

text \<open>
  \<open>fl64 x\<close> is the number that the format gives for the real \<open>x\<close>: \<open>x\<close> is rounded to the
  nearest multiple of the unit in the last place of its exponent (of the exponent
  \<open>-1022\<close> for a subnormal), a half to the even multiple, and becomes infinite when the
  rounded value reaches \<open>2^1024\<close>. Every arithmetic operation gives the rounded exact result.
\<close>

definition fl64 :: "real \<Rightarrow> number" where
  "fl64 x =
     (let e = max (exponent \<bar>x\<bar>) (- 1022);
          ulp = pow2 (e - 52);
          r = of_int (roundEven (x / ulp)) * ulp
      in if 2 ^ 1024 \<le> r then PosInfinity
         else if r \<le> - (2 ^ 1024) then NegInfinity
         else Num r)"

fun round64 :: "number \<Rightarrow> number" where
  "round64 (Num x) = fl64 x"
| "round64 x = x"

definition add64 :: "number \<Rightarrow> number \<Rightarrow> number" where
  "add64 x y = round64 (js_add x y)"

definition sub64 :: "number \<Rightarrow> number \<Rightarrow> number" where
  "sub64 x y = round64 (js_sub x y)"

definition mul64 :: "number \<Rightarrow> number \<Rightarrow> number" where
  "mul64 x y = round64 (js_mul x y)"

definition div64 :: "number \<Rightarrow> number \<Rightarrow> number" where
  "div64 x y = round64 (js_div x y)"

text \<open>
  \<^verbatim>\<open>Math.round\<close> gives the integer nearest to its argument, a half upwards. Storing a
  number in a \<^verbatim>\<open>Uint8Array\<close> truncates it and takes it modulo 256; \<open>NaN\<close> and the infinities
  are stored as 0.
\<close>

fun Math_round :: "number \<Rightarrow> number" where
  "Math_round (Num x) = Num (of_int \<lfloor>x + 1 / 2\<rfloor>)"
| "Math_round x = x"

fun toUint8 :: "number \<Rightarrow> nat" where
  "toUint8 (Num x) = nat ((if 0 \<le> x then \<lfloor>x\<rfloor> else \<lceil>x\<rceil>) mod 256)"
| "toUint8 _ = 0"

section \<open>Binarization\<close>

text \<open>
  \<^verbatim>\<open>binarize(imageData, threshold)\<close> writes, for every pixel, 0 to the three colour
  samples when the luma \<open>0.299 R + 0.587 G + 0.114 B\<close> is below the threshold and 255
  otherwise, and 255 to the alpha sample. The source computes the luma in binary64
  arithmetic, where the three products and the two sums are rounded (the luma of the
  gray \<open>(127, 127, 127)\<close> is below 127 there). That arithmetic is the parameter \<open>gray\<close>,
  which gives the luma the source computes from the three samples of a pixel. A sample
  that is missing makes the luma \<open>NaN\<close>, which is below no threshold. Writes behind the
  end of the output array are dropped.
\<close>

definition luma :: "(nat \<Rightarrow> nat \<Rightarrow> nat \<Rightarrow> number) \<Rightarrow> ImageData \<Rightarrow> nat \<Rightarrow> number" where
  "luma gray img i =
     (case (sample img i, sample img (i + 1), sample img (i + 2)) of
        (Some r, Some g, Some b) \<Rightarrow> gray r g b
      | _ \<Rightarrow> NaN)"

definition binaryData :: "(nat \<Rightarrow> nat \<Rightarrow> nat \<Rightarrow> number) \<Rightarrow> ImageData \<Rightarrow> real \<Rightarrow> 8 word list" where
  "binaryData gray img threshold =
     take (length (data img))
       (concat (map (\<lambda>p. let v = (if js_lt (luma gray img (p * 4)) (Num threshold) then 0 else 255)
                          in [v, v, v, 255])
                  [0..<(length (data img) + 3) div 4]))"

text \<open>
  The result is made by \<^verbatim>\<open>new ImageData(binaryData, width, height)\<close>. The constructor
  belongs to the platform and throws when it does not accept the buffer for the width and
  the height. Whether it accepts is the parameter \<open>accepts\<close>; \<open>None\<close> is its exception, which
  nothing in the source catches.
\<close>

definition binarize ::
  "(nat \<Rightarrow> nat \<Rightarrow> nat \<Rightarrow> number) \<Rightarrow> (8 word list \<Rightarrow> nat \<Rightarrow> nat \<Rightarrow> bool) \<Rightarrow> ImageData \<Rightarrow> real
     \<Rightarrow> ImageData option" where
  "binarize gray accepts img threshold =
     (if accepts (binaryData gray img threshold) (width img) (height img)
      then Some \<lparr>width = width img, height = height img, data = binaryData gray img threshold\<rparr>
      else None)"

text \<open>
  \<open>gray64\<close> is the luma as the source computes it: the three constants are the binary64
  numbers nearest to \<open>0.299\<close>, \<open>0.587\<close> and \<open>0.114\<close>, and the expression is evaluated from the
  left.
\<close>

definition gray64 :: "nat \<Rightarrow> nat \<Rightarrow> nat \<Rightarrow> number" where
  "gray64 r g b =
     add64 (add64 (mul64 (fl64 (299 / 1000)) (Num (real r))) (mul64 (fl64 (587 / 1000)) (Num (real g))))
       (mul64 (fl64 (114 / 1000)) (Num (real b)))"

text \<open>
  \<^verbatim>\<open>otsuBinarize\<close> first fills \<open>grayData\<close>, a \<^verbatim>\<open>Uint8Array\<close> with one byte for every whole
  pixel, with the rounded luma, and counts the bytes in a histogram of 256 bins.
\<close>

definition grayData :: "ImageData \<Rightarrow> nat list" where
  "grayData img =
     map (\<lambda>j. toUint8 (Math_round (gray64 (unat (data img ! (j * 4))) (unat (data img ! (j * 4 + 1)))
                                      (unat (data img ! (j * 4 + 2))))))
       [0..<length (data img) div 4]"

definition histogram :: "nat list \<Rightarrow> number list" where
  "histogram grays = fold (\<lambda>g h. h[g := add64 (h ! g) (Num 1)]) grays (replicate 256 (Num 0))"

text \<open>
  For a threshold \<open>t\<close> the loop adds up the weights \<open>w0\<close>, \<open>w1\<close> and the sums \<open>sum0\<close>,
  \<open>sum1\<close> of the two classes \<open>0..t\<close> and \<open>t+1..255\<close>, skips \<open>t\<close> when a weight is 0, and
  keeps \<open>t\<close> when its variance is above the greatest one so far. The state is
  \<open>(maxVariance, optimalThreshold)\<close>, at first \<open>(0, 128)\<close>. The image is then binarized with
  the threshold that is kept.
\<close>

definition otsu_w0 :: "number list \<Rightarrow> nat \<Rightarrow> number" where
  "otsu_w0 h t = fold (\<lambda>i w. add64 w (h ! i)) [0..<Suc t] (Num 0)"

definition otsu_sum0 :: "number list \<Rightarrow> nat \<Rightarrow> number" where
  "otsu_sum0 h t = fold (\<lambda>i s. add64 s (mul64 (Num (real i)) (h ! i))) [0..<Suc t] (Num 0)"

definition otsu_w1 :: "number list \<Rightarrow> nat \<Rightarrow> number" where
  "otsu_w1 h t = fold (\<lambda>i w. add64 w (h ! i)) [Suc t..<256] (Num 0)"

definition otsu_sum1 :: "number list \<Rightarrow> nat \<Rightarrow> number" where
  "otsu_sum1 h t = fold (\<lambda>i s. add64 s (mul64 (Num (real i)) (h ! i))) [Suc t..<256] (Num 0)"

definition otsu_variance :: "number list \<Rightarrow> number \<Rightarrow> nat \<Rightarrow> number" where
  "otsu_variance h pixelTotal t =
     (let w0 = otsu_w0 h t; w1 = otsu_w1 h t;
          mean0 = div64 (otsu_sum0 h t) w0;
          mean1 = div64 (otsu_sum1 h t) w1
      in div64 (mul64 (mul64 (mul64 w0 w1) (sub64 mean0 mean1)) (sub64 mean0 mean1))
           (mul64 pixelTotal pixelTotal))"

definition otsu_step :: "number list \<Rightarrow> number \<Rightarrow> nat \<Rightarrow> number \<times> nat \<Rightarrow> number \<times> nat" where
  "otsu_step h pixelTotal t st =
     (case st of (maxVariance, optimalThreshold) \<Rightarrow>
        if otsu_w0 h t = Num 0 \<or> otsu_w1 h t = Num 0 then (maxVariance, optimalThreshold)
        else if js_gt (otsu_variance h pixelTotal t) maxVariance
        then (otsu_variance h pixelTotal t, t)
        else (maxVariance, optimalThreshold))"

definition otsuThreshold :: "ImageData \<Rightarrow> nat" where
  "otsuThreshold img =
     (let grays = grayData img
      in snd (fold (otsu_step (histogram grays) (Num (real (length grays)))) [0..<256] (Num 0, 128)))"

definition otsuBinarize :: "(8 word list \<Rightarrow> nat \<Rightarrow> nat \<Rightarrow> bool) \<Rightarrow> ImageData \<Rightarrow> ImageData option" where
  "otsuBinarize accepts img = binarize gray64 accepts img (real (otsuThreshold img))"

text \<open>
  The words of the claim about the threshold: the two classes of a threshold \<open>t\<close>, the
  gray bytes up to \<open>t\<close> and those above \<open>t\<close>; a threshold for which all pixels fall into one
  class; the between-class variance \<open>w0 \<cdot> w1 \<cdot> (mean0 - mean1)\<^sup>2\<close> of a threshold over all
  pixels, in exact arithmetic; and the variance of a threshold as the source computes it.
\<close>

definition classBelow :: "ImageData \<Rightarrow> nat \<Rightarrow> nat list" where
  "classBelow img t = filter (\<lambda>g. g \<le> t) (grayData img)"

definition classAbove :: "ImageData \<Rightarrow> nat \<Rightarrow> nat list" where
  "classAbove img t = filter (\<lambda>g. t < g) (grayData img)"

definition oneClassOnly :: "ImageData \<Rightarrow> nat \<Rightarrow> bool" where
  "oneClassOnly img t = (classBelow img t = [] \<or> classAbove img t = [])"

definition betweenClassVariance :: "ImageData \<Rightarrow> nat \<Rightarrow> real" where
  "betweenClassVariance img t =
     (let w0 = real (length (classBelow img t));
          w1 = real (length (classAbove img t));
          mean0 = real (sum_list (classBelow img t)) / w0;
          mean1 = real (sum_list (classAbove img t)) / w1
      in w0 * w1 * (mean0 - mean1)\<^sup>2)"

definition computedVariance :: "ImageData \<Rightarrow> nat \<Rightarrow> number" where
  "computedVariance img t =
     otsu_variance (histogram (grayData img)) (Num (real (length (grayData img)))) t"

text \<open>
  A sample image of four gray pixels with the lumas 20, 84, 84 and 148.
\<close>

definition fourGrays :: ImageData where
  "fourGrays =
     \<lparr>width = 2, height = 2,
      data = [20, 20, 20, 255, 84, 84, 84, 255, 84, 84, 84, 255, 148, 148, 148, 255]\<rparr>"

text \<open>
  A sample image: a black pixel beside a white one.
\<close>

definition blackAndWhite :: ImageData where
  "blackAndWhite = \<lparr>width = 2, height = 1, data = [0, 0, 0, 255, 255, 255, 255, 255]\<rparr>"

section \<open>Feature extraction\<close>

text \<open>
  \<^verbatim>\<open>Math.atan2\<close> on reals, and the gradient of one pixel of a cell: with the samples of
  the pixel, of its right and of its lower neighbour, the magnitude is added to the bin
  \<open>floor((orientation + 180) / 40) % 9\<close> of the histogram of the cell. A missing sample
  makes the bin \<open>NaN\<close>, and the nine entries stay as they are.
\<close>

definition Math_atan2 :: "real \<Rightarrow> real \<Rightarrow> real" where
  "Math_atan2 y x =
     (if x > 0 then arctan (y / x)
      else if x < 0 \<and> y \<ge> 0 then arctan (y / x) + pi
      else if x < 0 then arctan (y / x) - pi
      else if y > 0 then pi / 2
      else if y < 0 then - pi / 2
      else 0)"

definition hog_pixel :: "ImageData \<Rightarrow> nat \<Rightarrow> nat \<Rightarrow> real list \<Rightarrow> real list" where
  "hog_pixel img y x hist =
     (let idx = (y * width img + x) * 4;
          rightIdx = (y * width img + x + 1) * 4;
          downIdx = ((y + 1) * width img + x) * 4
      in case (sample img idx, sample img rightIdx, sample img downIdx) of
           (Some c, Some r, Some d) \<Rightarrow>
             (let gx = real r - real c;
                  gy = real d - real c;
                  magnitude = sqrt (gx * gx + gy * gy);
                  orientation = Math_atan2 gy gx * (180 / pi);
                  bin = nat (\<lfloor>(orientation + 180) / 40\<rfloor> mod 9)
              in hist[bin := hist ! bin + magnitude])
         | _ \<Rightarrow> hist)"

text \<open>
  The histogram of the cell \<open>(cx, cy)\<close>, over the pixels of the cell that have a right and
  a lower neighbour, divided by its sum when the sum is positive.
\<close>

definition hog_cell :: "ImageData \<Rightarrow> nat \<Rightarrow> nat \<Rightarrow> nat \<Rightarrow> real list" where
  "hog_cell img cellSize cx cy =
     (let cellX = cx * cellSize;
          cellY = cy * cellSize;
          hist =
            fold (\<lambda>y. fold (hog_pixel img y) [cellX..<min (cellX + cellSize) (width img - 1)])
              [cellY..<min (cellY + cellSize) (height img - 1)] (replicate 9 0);
          histSum = fold (\<lambda>b a. a + b) hist 0
      in if histSum > 0 then map (\<lambda>v. v / histSum) hist else hist)"

text \<open>
  \<^verbatim>\<open>extractHOGFeatures(imageData, cellSize)\<close> runs over \<open>ceil(height / cellSize)\<close> rows of
  \<open>ceil(width / cellSize)\<close> cells. With \<open>cellSize = 0\<close> the number of rows is \<open>NaN\<close> for an
  image of height 0, and no row is visited; for every other image it is \<open>Infinity\<close>, and
  the loop does not end: the result is \<open>None\<close>.
\<close>

definition extractHOGFeatures :: "ImageData \<Rightarrow> nat \<Rightarrow> number list option" where
  "extractHOGFeatures img cellSize =
     (if cellSize = 0 then (if height img = 0 then Some [] else None)
      else
        (let numCellsX = (width img + cellSize - 1) div cellSize;
             numCellsY = (height img + cellSize - 1) div cellSize
         in Some (concat (map (\<lambda>cy. concat (map (\<lambda>cx. map Num (hog_cell img cellSize cx cy))
                                                  [0..<numCellsX]))
                            [0..<numCellsY]))))"

text \<open>
  \<^verbatim>\<open>extractProjectionFeatures\<close> counts the foreground pixels of every row and of every
  column in two separate loops, and appends each profile, divided by its greatest entry,
  only when that entry is positive. (\<^verbatim>\<open>Math.max\<close> of no argument is \<open>-Infinity\<close>; like
  the 0 that \<open>fold max\<close> gives for the empty profile, it is not positive.)
\<close>

definition rowProfile :: "ImageData \<Rightarrow> nat list" where
  "rowProfile img =
     fold (\<lambda>y. fold (\<lambda>x horizontal.
                        if below128 (sample img ((y * width img + x) * 4))
                        then horizontal[y := horizontal ! y + 1] else horizontal)
                  [0..<width img])
       [0..<height img] (replicate (height img) 0)"

definition columnProfile :: "ImageData \<Rightarrow> nat list" where
  "columnProfile img =
     fold (\<lambda>x. fold (\<lambda>y vertical.
                        if below128 (sample img ((y * width img + x) * 4))
                        then vertical[x := vertical ! x + 1] else vertical)
                  [0..<height img])
       [0..<width img] (replicate (width img) 0)"

definition extractProjectionFeatures :: "ImageData \<Rightarrow> number list" where
  "extractProjectionFeatures img =
     (let horizontal = rowProfile img;
          vertical = columnProfile img;
          hMax = fold max horizontal 0;
          vMax = fold max vertical 0
      in (if hMax > 0 then map (\<lambda>v. Num (real v / real hMax)) horizontal else [])
         @ (if vMax > 0 then map (\<lambda>v. Num (real v / real vMax)) vertical else []))"

text \<open>
  \<^verbatim>\<open>extractContourFeatures\<close> returns five numbers: the density of the foreground pixels
  of the interior that have a background pixel among their four neighbours, the aspect
  ratio of the box around the foreground, the share of foreground samples, and the width
  and the height of that box relative to the image. The bounds of the box start at
  \<open>minX = width\<close>, \<open>maxX = 0\<close>, \<open>minY = height\<close>, \<open>maxY = 0\<close>.
\<close>

definition isBoundary :: "ImageData \<Rightarrow> nat \<Rightarrow> nat \<Rightarrow> bool" where
  "isBoundary img y x =
     list_ex (\<lambda>nIdx. atLeast128 (sample img nIdx))
       [((y - 1) * width img + x) * 4, ((y + 1) * width img + x) * 4,
        (y * width img + x - 1) * 4, (y * width img + x + 1) * 4]"

definition contourPoints :: "ImageData \<Rightarrow> nat" where
  "contourPoints img =
     fold (\<lambda>y. fold (\<lambda>x n.
                        if below128 (sample img ((y * width img + x) * 4)) \<and> isBoundary img y x
                        then n + 1 else n)
                  [1..<width img - 1])
       [1..<height img - 1] 0"

definition inkBounds :: "ImageData \<Rightarrow> nat \<times> nat \<times> nat \<times> nat" where
  "inkBounds img =
     fold (\<lambda>y. fold (\<lambda>x (minX, maxX, minY, maxY).
                        if below128 (sample img ((y * width img + x) * 4))
                        then (min minX x, max maxX x, min minY y, max maxY y)
                        else (minX, maxX, minY, maxY))
                  [0..<width img])
       [0..<height img] (width img, 0, height img, 0)"

definition extractContourFeatures :: "ImageData \<Rightarrow> number list" where
  "extractContourFeatures img =
     (case inkBounds img of
        (minX, maxX, minY, maxY) \<Rightarrow>
          (let charWidth = int maxX - int minX + 1;
               charHeight = int maxY - int minY + 1;
               aspectRatio = (if charHeight > 0 then js_div (Num (real_of_int charWidth)) (Num (real_of_int charHeight))
                              else Num 1);
               blackPixels = length (filter (\<lambda>i. i mod 4 = 0 \<and> unat (data img ! i) < 128)
                                         [0..<length (data img)]);
               totalPixels = width img * height img
           in [js_div (Num (real (contourPoints img))) (Num (real (width img * height img))),
               aspectRatio,
               js_div (Num (real blackPixels)) (Num (real totalPixels)),
               js_div (Num (real_of_int charWidth)) (Num (real (width img))),
               js_div (Num (real_of_int charHeight)) (Num (real (height img)))]))"

definition extractAllFeatures :: "ImageData \<Rightarrow> number list option" where
  "extractAllFeatures img =
     (case extractHOGFeatures img 8 of
        None \<Rightarrow> None
      | Some hogFeatures \<Rightarrow>
          Some (hogFeatures @ extractProjectionFeatures img @ extractContourFeatures img))"

text \<open>Two more sample images, of one pixel each.\<close>

definition whitePixel :: ImageData where
  "whitePixel = \<lparr>width = 1, height = 1, data = [255, 255, 255, 255]\<rparr>"

definition blackPixel :: ImageData where
  "blackPixel = \<lparr>width = 1, height = 1, data = [0, 0, 0, 255]\<rparr>"

text \<open>
  For the proofs about the feature vectors: an image that has a foreground pixel, and a
  third sample image of one pixel.
\<close>

definition hasForeground :: "ImageData \<Rightarrow> bool" where
  "hasForeground img = (\<exists>y \<in> set [0..<height img]. \<exists>x \<in> set [0..<width img]. foregroundAt img (y * width img + x))"

definition darkPixel :: ImageData where
  "darkPixel = \<lparr>width = 1, height = 1, data = [100, 20, 20, 255]\<rparr>"

section \<open>Connected-component analysis\<close>

text \<open>
  \<^verbatim>\<open>connectedComponentAnalysis\<close> binarizes the image with the threshold 128 and labels the
  foreground pixels in one pass, row by row. The state of the pass: the label of every
  pixel (\<open>None\<close> for the \<open>-1\<close> of the source), the next label, and the \<^verbatim>\<open>Map\<close> from
  labels to sets of equivalent labels. The sets are objects that several labels may share:
  \<open>labelSets\<close> is the store of the sets, a set being the list of its elements in insertion
  order, and \<open>labelMap\<close> gives for every label the position of its set in the store. Labels
  are created in order, so both are lists, and the set made for a new label is put at the
  end of the store.
\<close>

record CCState =
  cc_labels :: "nat option list"
  currentLabel :: nat
  labelMap :: "nat list"
  labelSets :: "nat list list"

record box =
  minX :: nat
  minY :: nat
  maxX :: nat
  maxY :: nat

record SegmentedChar =
  seg_x :: nat
  seg_y :: nat
  seg_width :: nat
  seg_height :: nat
  seg_imageData :: ImageData

text \<open>
  The labels of the left, upper, upper-left and upper-right neighbours of the pixel
  \<open>(x, y)\<close>, as far as these exist and are labelled.
\<close>

definition labelAt :: "nat option list \<Rightarrow> nat \<Rightarrow> nat list" where
  "labelAt labels i = (case labels ! i of Some l \<Rightarrow> [l] | None \<Rightarrow> [])"

definition neighborLabels :: "nat \<Rightarrow> nat option list \<Rightarrow> nat \<Rightarrow> nat \<Rightarrow> nat list" where
  "neighborLabels W labels x y =
     (let idx = y * W + x
      in (if x > 0 then labelAt labels (idx - 1) else [])
         @ (if y > 0 then labelAt labels (idx - W) else [])
         @ (if x > 0 \<and> y > 0 then labelAt labels (idx - W - 1) else [])
         @ (if x < W - 1 \<and> y > 0 then labelAt labels (idx - W + 1) else []))"

text \<open>
  \<^verbatim>\<open>set2.forEach(l => { set1.add(l); labelMap.set(l, set1); })\<close> for the sets of
  \<open>minLabel\<close> and of another neighbour label. When both labels share one set, adding its
  own elements does not change it, so the elements visited are those it has at the start.
\<close>

definition set_add :: "nat \<Rightarrow> nat list \<Rightarrow> nat list" where
  "set_add l s = (if l \<in> set s then s else s @ [l])"

definition mergeInto :: "nat \<Rightarrow> nat \<Rightarrow> CCState \<Rightarrow> CCState" where
  "mergeInto minLabel lbl st =
     (let set1 = labelMap st ! minLabel;
          set2 = labelMap st ! lbl
      in fold (\<lambda>l st. st\<lparr>labelSets := (labelSets st)[set1 := set_add l (labelSets st ! set1)],
                           labelMap := (labelMap st)[l := set1]\<rparr>)
           (labelSets st ! set2) st)"

definition label_step :: "ImageData \<Rightarrow> nat \<Rightarrow> nat \<Rightarrow> CCState \<Rightarrow> CCState" where
  "label_step bin y x st =
     (let idx = y * width bin + x
      in if atLeast128 (sample bin (idx * 4)) then st
         else
           (let neighbors = neighborLabels (width bin) (cc_labels st) x y
            in if neighbors = [] then
                 st\<lparr>cc_labels := (cc_labels st)[idx := Some (currentLabel st)],
                    labelMap := labelMap st @ [length (labelSets st)],
                    labelSets := labelSets st @ [[currentLabel st]],
                    currentLabel := currentLabel st + 1\<rparr>
               else
                 (let minLabel = fold min neighbors (hd neighbors)
                  in fold (\<lambda>lbl st. if lbl \<noteq> minLabel then mergeInto minLabel lbl st else st)
                       neighbors (st\<lparr>cc_labels := (cc_labels st)[idx := Some minLabel]\<rparr>))))"

definition labelPass :: "ImageData \<Rightarrow> CCState" where
  "labelPass bin =
     fold (\<lambda>y. fold (label_step bin y) [0..<width bin]) [0..<height bin]
       \<lparr>cc_labels = replicate (width bin * height bin) None, currentLabel = 0,
        labelMap = [], labelSets = []\<rparr>"

text \<open>
  The second pass gives every labelled pixel the least element of the set of its label.
\<close>

definition finalLabels :: "CCState \<Rightarrow> nat option list" where
  "finalLabels st =
     map (\<lambda>l. case l of
                 None \<Rightarrow> None
               | Some lbl \<Rightarrow>
                   (let s = labelSets st ! (labelMap st ! lbl) in Some (fold min s (hd s))))
       (cc_labels st)"

text \<open>
  The third pass collects, in a \<^verbatim>\<open>Map\<close> from final labels to boxes, the bounds of the
  pixels of every label.
\<close>

definition box_step :: "nat \<Rightarrow> nat option list \<Rightarrow> nat \<Rightarrow> nat \<Rightarrow> (nat \<times> box) list \<Rightarrow> (nat \<times> box) list" where
  "box_step W final y x boxes =
     (case final ! (y * W + x) of
        None \<Rightarrow> boxes
      | Some lbl \<Rightarrow>
          (case map_of boxes lbl of
             None \<Rightarrow> map_set lbl \<lparr>minX = x, minY = y, maxX = x, maxY = y\<rparr> boxes
           | Some b \<Rightarrow>
               map_set lbl \<lparr>minX = min (minX b) x, minY = min (minY b) y,
                            maxX = max (maxX b) x, maxY = max (maxY b) y\<rparr> boxes))"

definition boundingBoxes :: "nat \<Rightarrow> nat \<Rightarrow> nat option list \<Rightarrow> (nat \<times> box) list" where
  "boundingBoxes W H final = fold (\<lambda>y. fold (box_step W final y) [0..<W]) [0..<H] []"

text \<open>
  The last pass turns every box into a \<^verbatim>\<open>SegmentedChar\<close> with the image of the component,
  black where the pixel has the label of the box and white elsewhere. A box narrower or
  lower than 5 is left out. So is a box for which no drawing context is obtained: whether
  \<^verbatim>\<open>getContext('2d')\<close> of a canvas of a given width and height gives one is the parameter
  \<open>ctx2d\<close>.
\<close>

definition componentImage :: "nat \<Rightarrow> nat option list \<Rightarrow> nat \<Rightarrow> box \<Rightarrow> ImageData" where
  "componentImage W final lbl b =
     \<lparr>width = maxX b - minX b + 1, height = maxY b - minY b + 1,
      data = concat (map (\<lambda>y. concat (map (\<lambda>x. if final ! (y * W + x) = Some lbl
                                                then [0, 0, 0, 255] else [255, 255, 255, 255])
                                         [minX b..<maxX b + 1]))
                      [minY b..<maxY b + 1])\<rparr>"

definition toSegmentedChar ::
  "(nat \<Rightarrow> nat \<Rightarrow> bool) \<Rightarrow> nat \<Rightarrow> nat option list \<Rightarrow> nat \<times> box \<Rightarrow> SegmentedChar list" where
  "toSegmentedChar ctx2d W final entry =
     (case entry of (lbl, b) \<Rightarrow>
        (let charWidth = maxX b - minX b + 1;
             charHeight = maxY b - minY b + 1
         in if charWidth < 5 \<or> charHeight < 5 then []
            else if ctx2d charWidth charHeight
            then [\<lparr>seg_x = minX b, seg_y = minY b, seg_width = charWidth, seg_height = charHeight,
                   seg_imageData = componentImage W final lbl b\<rparr>]
            else []))"

definition connectedComponentAnalysis ::
  "(nat \<Rightarrow> nat \<Rightarrow> nat \<Rightarrow> number) \<Rightarrow> (8 word list \<Rightarrow> nat \<Rightarrow> nat \<Rightarrow> bool) \<Rightarrow> (nat \<Rightarrow> nat \<Rightarrow> bool)
     \<Rightarrow> ImageData \<Rightarrow> SegmentedChar list option" where
  "connectedComponentAnalysis gray accepts ctx2d img =
     (case binarize gray accepts img 128 of
        None \<Rightarrow> None
      | Some bin \<Rightarrow>
          (let final = finalLabels (labelPass bin);
               boxes = boundingBoxes (width bin) (height bin) final
           in Some (concat (map (toSegmentedChar ctx2d (width bin) final) boxes))))"

text \<open>
  The words of the claim about a solid block: the image has a binarization, in which
  the pixel \<open>(x, y)\<close> is foreground exactly when it lies in the square of side 5 with the
  upper left corner \<open>(x0, y0)\<close>, and the square lies inside the image. Foreground is what
  the labelling pass does not skip, a pixel whose red sample is not \<open>>= 128\<close>.
\<close>

definition inBlock :: "nat \<Rightarrow> nat \<Rightarrow> nat \<Rightarrow> nat \<Rightarrow> bool" where
  "inBlock x0 y0 x y = (x0 \<le> x \<and> x < x0 + 5 \<and> y0 \<le> y \<and> y < y0 + 5)"

definition solidBlock ::
  "(nat \<Rightarrow> nat \<Rightarrow> nat \<Rightarrow> number) \<Rightarrow> (8 word list \<Rightarrow> nat \<Rightarrow> nat \<Rightarrow> bool) \<Rightarrow> ImageData \<Rightarrow> nat \<Rightarrow> nat
     \<Rightarrow> bool" where
  "solidBlock gray accepts img x0 y0 =
     (case binarize gray accepts img 128 of
        None \<Rightarrow> False
      | Some bin \<Rightarrow>
          x0 + 5 \<le> width bin \<and> y0 + 5 \<le> height bin
          \<and> (\<forall>y \<in> set [0..<height bin]. \<forall>x \<in> set [0..<width bin].
                (\<not> atLeast128 (sample bin ((y * width bin + x) * 4))) = inBlock x0 y0 x y))"

text \<open>
  The words of the claim about the boxes: the bounding boxes of the components of the
  binarization in the order in which the third pass finds them, the width and the height
  of a box, and the box \<open>(x, y, width, height)\<close> of a component of the output.
\<close>

definition componentBoxes ::
  "(nat \<Rightarrow> nat \<Rightarrow> nat \<Rightarrow> number) \<Rightarrow> (8 word list \<Rightarrow> nat \<Rightarrow> nat \<Rightarrow> bool) \<Rightarrow> ImageData \<Rightarrow> (nat \<times> box) list" where
  "componentBoxes gray accepts img =
     (case binarize gray accepts img 128 of
        None \<Rightarrow> []
      | Some bin \<Rightarrow> boundingBoxes (width bin) (height bin) (finalLabels (labelPass bin)))"

definition boxWidth :: "box \<Rightarrow> nat" where
  "boxWidth b = maxX b - minX b + 1"

definition boxHeight :: "box \<Rightarrow> nat" where
  "boxHeight b = maxY b - minY b + 1"

definition segBox :: "SegmentedChar \<Rightarrow> nat \<times> nat \<times> nat \<times> nat" where
  "segBox c = (seg_x c, seg_y c, seg_width c, seg_height c)"

text \<open>
  A sample image, a black square of side 5, with a luma and a constructor for it: on a
  black pixel the products and the sums of the luma are 0, in binary64 as in the reals;
  and the constructor of the HTML standard accepts a buffer that is not empty and has four
  samples for every pixel.
\<close>

definition blackSquare :: ImageData where
  "blackSquare = \<lparr>width = 5, height = 5, data = concat (replicate 25 [0, 0, 0, 255])\<rparr>"

definition realLuma :: "nat \<Rightarrow> nat \<Rightarrow> nat \<Rightarrow> number" where
  "realLuma r g b = Num (299 / 1000 * real r + 587 / 1000 * real g + 114 / 1000 * real b)"

definition fitsImage :: "8 word list \<Rightarrow> nat \<Rightarrow> nat \<Rightarrow> bool" where
  "fitsImage buffer sw sh = (buffer \<noteq> [] \<and> length buffer = 4 * sw * sh)"

text \<open>
  For the proofs: \<open>(x', y')\<close> is visited before \<open>(x, y)\<close> in the order of the loops, and the
  invariants of the first and of the third pass on an image with a solid block.
\<close>

definition visitedBefore :: "nat \<Rightarrow> nat \<Rightarrow> nat \<Rightarrow> nat \<Rightarrow> bool" where
  "visitedBefore x y x' y' = (y' < y \<or> (y' = y \<and> x' < x))"

definition blockLabels :: "nat \<Rightarrow> nat \<Rightarrow> nat \<Rightarrow> nat \<Rightarrow> nat \<Rightarrow> nat \<Rightarrow> nat option list \<Rightarrow> bool" where
  "blockLabels W H x0 y0 x y labels =
     (length labels = W * H
      \<and> (\<forall>y' < H. \<forall>x' < W.
            labels ! (y' * W + x') =
              (if visitedBefore x y x' y' \<and> inBlock x0 y0 x' y' then Some 0 else None)))"

definition blockInv :: "nat \<Rightarrow> nat \<Rightarrow> nat \<Rightarrow> nat \<Rightarrow> nat \<Rightarrow> nat \<Rightarrow> CCState \<Rightarrow> bool" where
  "blockInv W H x0 y0 x y st =
     (blockLabels W H x0 y0 x y (cc_labels st)
      \<and> (if visitedBefore x y x0 y0
          then currentLabel st = 1 \<and> labelMap st = [0] \<and> labelSets st = [[0]]
          else currentLabel st = 0 \<and> labelMap st = [] \<and> labelSets st = []))"

definition boxInv :: "nat \<Rightarrow> nat \<Rightarrow> nat \<Rightarrow> nat \<Rightarrow> (nat \<times> box) list \<Rightarrow> bool" where
  "boxInv x0 y0 x y boxes =
     (if visitedBefore x y x0 y0
      then (\<exists>b. boxes = [(0, b)] \<and> minX b = x0 \<and> minY b = y0
                \<and> maxX b \<le> x0 + 4 \<and> maxY b \<le> y0 + 4
                \<and> (\<forall>x' y'. visitedBefore x y x' y' \<and> inBlock x0 y0 x' y' \<longrightarrow>
                      x' \<le> maxX b \<and> y' \<le> maxY b))
      else boxes = [])"

section \<open>Properties of the range segmentation\<close>

lemma findRanges_loop_snoc:
  "findRanges_loop (xs @ [v]) minGap =
     findRanges_step (xs @ [v]) minGap (length xs)
       (fold (findRanges_step (xs @ [v]) minGap) [0..<length xs] ([], False, 0))"
  by (simp add: findRanges_loop_def)

lemma findRanges_step_positive:
  "projection ! i > 0 \<Longrightarrow>
     \<exists>ranges start. findRanges_step projection minGap i st = (ranges, True, start)"
  by (cases st) (auto simp: findRanges_step_def)

lemma findRanges_open_at_end:
  assumes "projection \<noteq> []" and "last projection > 0"
  shows "\<exists>ranges start. findRanges_loop projection minGap = (ranges, True, start)"
proof -
  from assms(1) obtain xs v where p: "projection = xs @ [v]"
    by (metis append_butlast_last_id)
  with assms(2) have "projection ! length xs > 0" by simp
  then show ?thesis
    unfolding p findRanges_loop_snoc by (rule findRanges_step_positive)
qed

text \<open>
  Claim C8. On the histogram \<open>[0,0,3,4,0,0,0,5,2,0]\<close> with \<open>minGap = 1\<close> the result is
  exactly the two ranges \<open>{start: 2, end: 4}\<close> and \<open>{start: 7, end: 9}\<close>. For every
  histogram, a range that is still open when the scan reaches the end of the array (the
  last entry is positive) is closed at the array end: the last range of the result ends at
  \<open>projection.length\<close>.
\<close>

theorem findRanges_example_and_trailing_range:
  "findRanges [0, 0, 3, 4, 0, 0, 0, 5, 2, 0] 1 =
     [\<lparr>range_start = 2, range_end = 4\<rparr>, \<lparr>range_start = 7, range_end = 9\<rparr>]
   \<and> (projection \<noteq> [] \<and> last projection > 0 \<longrightarrow>
        findRanges projection minGap \<noteq> [] \<and>
        range_end (last (findRanges projection minGap)) = length projection)"
proof
  show "findRanges [0, 0, 3, 4, 0, 0, 0, 5, 2, 0] 1 =
     [\<lparr>range_start = 2, range_end = 4\<rparr>, \<lparr>range_start = 7, range_end = 9\<rparr>]"
    by (simp add: findRanges_def findRanges_loop_def findRanges_step_def gapSize_def upt_rec)
next
  show "projection \<noteq> [] \<and> last projection > 0 \<longrightarrow>
        findRanges projection minGap \<noteq> [] \<and>
        range_end (last (findRanges projection minGap)) = length projection"
  proof
    assume "projection \<noteq> [] \<and> last projection > 0"
    then obtain ranges start where "findRanges_loop projection minGap = (ranges, True, start)"
      using findRanges_open_at_end by blast
    then show "findRanges projection minGap \<noteq> [] \<and>
        range_end (last (findRanges projection minGap)) = length projection"
      by (simp add: findRanges_def)
  qed
qed

theorem findRanges_trailing_range_witness:
  "[0, 2, 1] \<noteq> ([] :: int list) \<and> last [0, 2, 1 :: int] > 0
   \<and> findRanges [0, 2, 1] 1 = [\<lparr>range_start = 1, range_end = 3\<rparr>]
   \<and> range_end (last (findRanges [0, 2, 1] 1)) = length [0, 2, 1 :: int]"
  using findRanges_example_and_trailing_range [of "[0, 2, 1]" 1]
  by (simp add: findRanges_def findRanges_loop_def findRanges_step_def gapSize_def upt_rec)

section \<open>Empty input to the classifiers\<close>

text \<open>
  Claim C10. Empty input is a no-op and never an error: \<^verbatim>\<open>KMeans.fit\<close> on an empty data
  set returns the empty list of centroids (whatever the fuel, the random source and the
  object), \<^verbatim>\<open>KNN.predict\<close> on an empty stored training set returns \<open>null\<close>, and
  \<^verbatim>\<open>KNN.predictWithConfidence\<close> returns \<open>{label: null, confidence: 0}\<close>, whatever
  the sort of the platform does. Each of the three calls returns normally.
\<close>

theorem empty_input_is_noop:
  "fit fuel rnd km [] = Some (Inr ([], km, 0))
   \<and> predict Array_sort (knn\<lparr>knn_trainingData := []\<rparr>) fs = None
   \<and> predictWithConfidence Array_sort (knn\<lparr>knn_trainingData := []\<rparr>) fs =
       \<lparr>prediction_label = None, prediction_confidence = Num 0\<rparr>"
  by (simp add: fit_def predict_def predictWithConfidence_def)

section \<open>Termination of the k-means fit\<close>

lemma fold_js_add_NaN: "fold (\<lambda>b a. js_add a b) xs NaN = NaN"
  by (induction xs) simp_all

lemma js_add_NaN_right: "js_add x NaN = NaN"
  by (cases x) simp_all

lemma fold_js_add_mem_NaN: "NaN \<in> set xs \<Longrightarrow> fold (\<lambda>b a. js_add a b) xs acc = NaN"
  by (induction xs arbitrary: acc) (auto simp: fold_js_add_NaN js_add_NaN_right)

lemma js_mul_NaN_right: "js_mul x NaN = NaN"
  by (cases x) simp_all

lemma pickNext_NaN: "pickNext NaN zs cs = cs"
  by (induction zs) (auto simp: js_sub_def js_le_def)

lemma seedRound_NaN:
  assumes "NaN \<in> set (seedDistances pts cs)"
  shows "seedRound r pts cs = cs"
  using assms by (simp add: seedRound_def fold_js_add_mem_NaN js_mul_NaN_right pickNext_NaN)

lemma seedLoop_stuck:
  assumes "NaN \<in> set (seedDistances pts cs)" and "length cs < k"
  shows "seedLoop fuel rnd pos k pts cs = None"
  using assms
proof (induction fuel arbitrary: pos)
  case 0
  then show ?case by (simp add: seedLoop.simps)
next
  case (Suc fuel)
  then show ?case by (simp add: seedLoop.simps [of "Suc fuel"] seedRound_NaN)
qed

lemma fold_sum_NaN:
  "fold (\<lambda>i sum. js_add sum (g i)) is NaN = NaN"
  by (induction "is") simp_all

lemma fold_sum_mem_NaN:
  "i \<in> set is \<Longrightarrow> g i = NaN \<Longrightarrow> fold (\<lambda>i sum. js_add sum (g i)) is acc = NaN"
  by (induction "is" arbitrary: acc) (auto simp: fold_sum_NaN js_add_NaN_right)

lemma euclideanDistance_longer:
  assumes "length b < length a"
  shows "euclideanDistance a b = NaN"
proof -
  let ?g = "\<lambda>i. js_mul (js_sub (a ! i) (read_at b i)) (js_sub (a ! i) (read_at b i))"
  have "?g (length b) = NaN"
    by (simp add: read_at_def js_sub_def js_add_NaN_right)
  moreover have "length b \<in> set [0..<length a]"
    using assms by simp
  ultimately have "fold (\<lambda>i sum. js_add sum (?g i)) [0..<length a] (Num 0) = NaN"
    by (rule fold_sum_mem_NaN [rotated])
  then show ?thesis by (simp add: euclideanDistance_def)
qed

lemma fold_Math_min_NaN:
  "fold (\<lambda>centroid minDist. Math_min minDist (f centroid)) cs NaN = NaN"
  by (induction cs) (simp_all add: Math_min_def)

lemma fold_Math_min_mem_NaN:
  "c \<in> set cs \<Longrightarrow> f c = NaN \<Longrightarrow>
     fold (\<lambda>centroid minDist. Math_min minDist (f centroid)) cs acc = NaN"
proof (induction cs arbitrary: acc)
  case Nil
  then show ?case by simp
next
  case (Cons x cs)
  show ?case
  proof (cases "x = c")
    case True
    with Cons.prems(2) have "Math_min acc (f x) = NaN"
      by (simp add: Math_min_def)
    then show ?thesis by (simp add: fold_Math_min_NaN)
  next
    case False
    with Cons.prems(1) have "c \<in> set cs" by simp
    then show ?thesis using Cons.IH Cons.prems(2) by simp
  qed
qed

lemma seedDistances_NaN:
  assumes "p \<in> set pts" and "c \<in> set cs" and "length c < length p"
  shows "NaN \<in> set (seedDistances pts cs)"
proof -
  have "fold (\<lambda>centroid minDist. Math_min minDist (euclideanDistance p centroid)) cs PosInfinity = NaN"
    using assms(2) euclideanDistance_longer [OF assms(3)] by (rule fold_Math_min_mem_NaN)
  then have "(let minDist = fold (\<lambda>centroid minDist. Math_min minDist (euclideanDistance p centroid))
                              cs PosInfinity
             in js_mul minDist minDist) = NaN"
    by simp
  then show ?thesis
    using assms(1) unfolding seedDistances_def set_map by (metis (no_types, lifting) imageI)
qed

text \<open>
  Claim C6 says that \<^verbatim>\<open>KMeans.fit\<close> terminates on every finite data set. The Lloyd loop
  is bounded by \<open>maxIterations\<close>, but the seeding that \<^verbatim>\<open>fit\<close> runs first is not: when
  \<open>k \<ge> 2\<close> and some point of the data is longer than the first centroid drawn, its
  distance to that centroid is \<open>NaN\<close>, the threshold \<open>random\<close> is \<open>NaN\<close>, the test
  \<open>random \<le> 0\<close> never holds, no centroid is pushed, and the loop
  \<^verbatim>\<open>while (centroids.length < this.k)\<close> never ends: with any amount of fuel the
  result is \<open>None\<close>.
\<close>

theorem fit_seeding_never_ends:
  assumes "2 \<le> kmeans_k km"
    and "p \<in> set pts"
    and "length (pts ! nat \<lfloor>Math_random rnd 0 * real (length pts)\<rfloor>) < length p"
  shows "fit fuel rnd km pts = None"
proof -
  let ?first = "pts ! nat \<lfloor>Math_random rnd 0 * real (length pts)\<rfloor>"
  have "NaN \<in> set (seedDistances pts [?first])"
    using assms(2) _ assms(3) by (rule seedDistances_NaN) simp
  moreover have "length [?first] < kmeans_k km"
    using assms(1) by simp
  ultimately have "seedLoop fuel rnd (Suc 0) (kmeans_k km) pts [?first] = None"
    by (rule seedLoop_stuck)
  moreover have "pts \<noteq> []"
    using assms(2) by auto
  ultimately show ?thesis
    by (simp add: fit_def initializeCentroids_def)
qed

theorem fit_seeding_never_ends_witness:
  "2 \<le> kmeans_k (new_KMeans 2)
   \<and> [Num 0, Num 0] \<in> set [[Num 0, Num 0], [Num 1]]
   \<and> [[Num 0, Num 0], [Num 1]] ! nat \<lfloor>Math_random (\<lambda>_. 1 / 2) 0 * real (length [[Num 0, Num 0], [Num 1]])\<rfloor>
       = [Num 1]
   \<and> fit 1000 (\<lambda>_. 1 / 2) (new_KMeans 2) [[Num 0, Num 0], [Num 1]] = None"
  using fit_seeding_never_ends [of "new_KMeans 2" "[Num 0, Num 0]" "[[Num 0, Num 0], [Num 1]]" "\<lambda>_. 1 / 2" 1000]
  by (simp add: new_KMeans_def Math_random_def frac_def)


section \<open>Projection sums\<close>

lemma projection_step_inv:
  assumes "proj_inv (width img) H n hv" "y < H" "x < width img"
  shows "proj_inv (width img) H (n + (if foregroundAt img (y * width img + x) then 1 else 0))
           (projection_step img y x hv)"
  using assms
  by (cases hv) (auto simp: proj_inv_def projection_step_def foregroundAt_def Let_def sum_list_update)

lemma projection_row_inv:
  assumes "proj_inv (width img) H n hv" "y < H" "set xs \<subseteq> {0..<width img}"
  shows "proj_inv (width img) H (n + length (filter (\<lambda>x. foregroundAt img (y * width img + x)) xs))
           (fold (projection_step img y) xs hv)"
  using assms
proof (induction xs arbitrary: n hv)
  case Nil
  then show ?case by simp
next
  case (Cons x xs)
  from Cons.prems have "x < width img" by simp
  from projection_step_inv [OF Cons.prems(1,2) this]
  have "proj_inv (width img) H (n + (if foregroundAt img (y * width img + x) then 1 else 0))
           (projection_step img y x hv)" .
  from Cons.IH [OF this Cons.prems(2)] Cons.prems(3)
  show ?case by (auto simp: add.assoc split: if_splits)
qed

lemma projection_rows_inv:
  assumes "proj_inv (width img) H n hv" "set ys \<subseteq> {0..<H}"
  shows "proj_inv (width img) H
           (n + (\<Sum>y\<leftarrow>ys. length (filter (\<lambda>x. foregroundAt img (y * width img + x)) [0..<width img])))
           (fold (\<lambda>y. fold (projection_step img y) [0..<width img]) ys hv)"
  using assms
proof (induction ys arbitrary: n hv)
  case Nil
  then show ?case by simp
next
  case (Cons y ys)
  from Cons.prems have "y < H" by simp
  from projection_row_inv [OF Cons.prems(1) this, of "[0..<width img]"]
  have "proj_inv (width img) H
          (n + length (filter (\<lambda>x. foregroundAt img (y * width img + x)) [0..<width img]))
          (fold (projection_step img y) [0..<width img] hv)" by simp
  from Cons.IH [OF this] Cons.prems(2)
  show ?case by (simp add: add.assoc)
qed

lemma upt_rows: "[0..<W * Suc H] = [0..<W * H] @ map (\<lambda>x. H * W + x) [0..<W]"
proof -
  have "W * Suc H = W * H + W" by simp
  then have "[0..<W * Suc H] = [0..<W * H + W]" by (simp only:)
  also have "\<dots> = [0..<W * H] @ [W * H..<W * H + W]"
    by (rule upt_add_eq_append) simp
  also have "[W * H..<W * H + W] = map (\<lambda>x. x + W * H) [0..<W]"
    by (simp only: map_add_upt add.commute [of W "W * H"])
  also have "\<dots> = map (\<lambda>x. H * W + x) [0..<W]"
    by (simp only: add.commute mult.commute)
  finally show ?thesis .
qed

lemma count_rows:
  "length (filter P [0..<W * H]) = (\<Sum>y\<leftarrow>[0..<H]. length (filter (\<lambda>x. P (y * W + x)) [0..<W]))"
proof (induction H)
  case 0
  then show ?case by simp
next
  case (Suc H)
  show ?case
    unfolding upt_rows using Suc by (simp add: filter_map comp_def)
qed

text \<open>
  Claim C7. For every buffer, the horizontal projection and the vertical projection have
  the same sum, and this sum is the number of foreground pixels of the buffer.
\<close>

theorem projection_sums:
  "sum_list (horizontal (calculateProjection img)) = sum_list (vertical (calculateProjection img))
   \<and> sum_list (horizontal (calculateProjection img)) = foregroundCount img"
proof -
  have "proj_inv (width img) (height img) 0 (replicate (height img) 0, replicate (width img) 0)"
    by (simp add: proj_inv_def)
  from projection_rows_inv [OF this, of "[0..<height img]"]
  have "proj_inv (width img) (height img) (foregroundCount img)
          (fold (\<lambda>y. fold (projection_step img y) [0..<width img]) [0..<height img]
             (replicate (height img) 0, replicate (width img) 0))"
    by (simp add: foregroundCount_def count_rows)
  then show ?thesis
    by (auto simp: calculateProjection_def proj_inv_def split: prod.splits)
qed


section \<open>Cluster-majority correction\<close>

lemma map_of_map_set: "map_of (map_set k v m) = (map_of m)(k \<mapsto> v)"
  by (induction m) (auto simp: fun_eq_iff)

lemma keys_map_set: "fst ` set (map_set k v m) = insert k (fst ` set m)"
  by (simp add: map_of_map_set flip: dom_map_of_conv_image_fst)

lemma distinct_map_set: "distinct (map fst m) \<Longrightarrow> distinct (map fst (map_set k v m))"
  by (induction m) (auto simp: keys_map_set)

lemma groupByCluster_upto:
  "distinct (map fst (fold (groupByCluster_step results) [0..<n] []))
   \<and> (\<forall>cid. map_of (fold (groupByCluster_step results) [0..<n] []) cid =
          (if indicesOf results n cid = [] then None else Some (indicesOf results n cid)))"
proof (induction n)
  case 0
  then show ?case by (simp add: indicesOf_def)
next
  case (Suc n)
  let ?g = "fold (groupByCluster_step results) [0..<n] []"
  have step: "fold (groupByCluster_step results) [0..<Suc n] [] = groupByCluster_step results n ?g"
    by simp
  show ?case
  proof (cases "clusterId (results ! n)")
    case None
    then have "groupByCluster_step results n ?g = ?g"
      by (simp add: groupByCluster_step_def)
    moreover have "indicesOf results (Suc n) cid = indicesOf results n cid" for cid
      using None by (simp add: indicesOf_def)
    ultimately show ?thesis using Suc unfolding step by simp
  next
    case (Some c)
    have old: "(case map_of ?g c of Some c \<Rightarrow> c | None \<Rightarrow> []) = indicesOf results n c"
      using Suc by simp
    have g: "groupByCluster_step results n ?g = map_set c (indicesOf results n c @ [n]) ?g"
      using Some old by (simp add: groupByCluster_step_def)
    have same: "indicesOf results (Suc n) c = indicesOf results n c @ [n]"
      using Some by (simp add: indicesOf_def)
    have other: "indicesOf results (Suc n) cid = indicesOf results n cid" if "cid \<noteq> c" for cid
      using Some that by (simp add: indicesOf_def)
    show ?thesis
      unfolding step g using Suc same other
      by (auto simp: map_of_map_set distinct_map_set)
  qed
qed

lemma charCounts_spec:
  "distinct (map fst (charCounts store cluster))
   \<and> (\<forall>c. map_of (charCounts store cluster) c =
          (if countIn store cluster c = 0 then None else Some (countIn store cluster c)))"
proof (induction cluster rule: rev_induct)
  case Nil
  then show ?case by (simp add: charCounts_def countIn_def)
next
  case (snoc i cluster)
  let ?m = "charCounts store cluster"
  let ?c = "char (store ! i)"
  have old: "(case map_of ?m ?c of Some n \<Rightarrow> n | None \<Rightarrow> 0) = countIn store cluster ?c"
    using snoc by simp
  have step: "charCounts store (cluster @ [i]) = map_set ?c (countIn store cluster ?c + 1) ?m"
    using old by (simp add: charCounts_def charCounts_step_def)
  have same: "countIn store (cluster @ [i]) ?c = countIn store cluster ?c + 1"
    by (simp add: countIn_def)
  have other: "countIn store (cluster @ [i]) c = countIn store cluster c" if "c \<noteq> ?c" for c
    using that by (auto simp: countIn_def)
  show ?case
    unfolding step using snoc same other
    by (auto simp: map_of_map_set distinct_map_set)
qed

lemma mostCommon_fold:
  assumes "fold (\<lambda>(c, count) (maxCount, mostCommonChar).
             if count > maxCount then (count, c) else (maxCount, mostCommonChar)) m (a :: nat, b :: string)
           = (mx, mc)"
  shows "a \<le> mx \<and> (\<forall>(c, n) \<in> set m. n \<le> mx) \<and> ((mx, mc) = (a, b) \<or> (mc, mx) \<in> set m)"
  using assms
proof (induction m arbitrary: a b)
  case Nil
  then show ?case by simp
next
  case (Cons p m)
  obtain c n where p: "p = (c, n)" by (cases p)
  show ?case
  proof (cases "n > a")
    case True
    with Cons.prems p have "fold (\<lambda>(c, count) (maxCount, mostCommonChar).
             if count > maxCount then (count, c) else (maxCount, mostCommonChar)) m (n, c) = (mx, mc)"
      by simp
    from Cons.IH [OF this] True p show ?thesis by auto
  next
    case False
    with Cons.prems p have "fold (\<lambda>(c, count) (maxCount, mostCommonChar).
             if count > maxCount then (count, c) else (maxCount, mostCommonChar)) m (a, b) = (mx, mc)"
      by simp
    from Cons.IH [OF this] False p show ?thesis by auto
  qed
qed

lemma mostCommon_spec:
  assumes "mostCommon m = (mx, mc)"
  shows "(\<forall>(c, n) \<in> set m. n \<le> mx) \<and> (0 < mx \<longrightarrow> (mc, mx) \<in> set m)"
  using mostCommon_fold [OF assms [unfolded mostCommon_def]] by auto

lemma countIn_two:
  assumes "c \<noteq> d"
  shows "countIn store cluster c + countIn store cluster d \<le> length cluster"
  using assms by (induction cluster) (auto simp: countIn_def)

lemma majority_decision:
  assumes "mostCommon (charCounts store cluster) = (mx, mc)"
  shows "(2 * mx > length cluster \<longrightarrow> countIn store cluster mc = mx)
       \<and> (2 * countIn store cluster c > length cluster \<longrightarrow> mc = c \<and> 2 * mx > length cluster)"
proof -
  note cc = charCounts_spec [of store cluster]
  note mc = mostCommon_spec [OF assms]
  have A: "countIn store cluster mc = mx" if "2 * mx > length cluster"
  proof -
    from that have "0 < mx" by simp
    with mc have "(mc, mx) \<in> set (charCounts store cluster)" by simp
    with cc have "map_of (charCounts store cluster) mc = Some mx"
      by (intro map_of_is_SomeI) simp_all
    moreover from cc have "map_of (charCounts store cluster) mc =
        (if countIn store cluster mc = 0 then None else Some (countIn store cluster mc))"
      by blast
    ultimately show ?thesis by (simp split: if_splits)
  qed
  have B: "mc = c \<and> 2 * mx > length cluster" if maj: "2 * countIn store cluster c > length cluster"
  proof -
    from maj have "countIn store cluster c \<noteq> 0" by simp
    with cc have "map_of (charCounts store cluster) c = Some (countIn store cluster c)" by simp
    then have "(c, countIn store cluster c) \<in> set (charCounts store cluster)"
      by (rule map_of_SomeD)
    with mc have le: "countIn store cluster c \<le> mx" by auto
    with maj have big: "2 * mx > length cluster" by simp
    from A [OF big] have "countIn store cluster mc = mx" .
    with le maj countIn_two [of mc c store cluster] have "mc = c"
      by (cases "mc = c") auto
    with big show ?thesis by simp
  qed
  from A B show ?thesis by blast
qed

lemma fold_update_nth:
  assumes "distinct idxs" and "\<forall>i \<in> set idxs. i < length s"
  shows "length (fold (\<lambda>i s. s[i := f (s ! i)]) idxs s) = length s
       \<and> (\<forall>j < length s. fold (\<lambda>i s. s[i := f (s ! i)]) idxs s ! j = (if j \<in> set idxs then f (s ! j) else s ! j))"
  using assms
proof (induction idxs arbitrary: s)
  case Nil
  then show ?case by simp
next
  case (Cons i idxs)
  let ?s = "s[i := f (s ! i)]"
  from Cons.prems have "distinct idxs" "\<forall>i \<in> set idxs. i < length ?s" by simp_all
  from Cons.IH [OF this] Cons.prems show ?case
    by (auto simp: nth_list_update)
qed

lemma strictMajority_countIn:
  "strictMajority c (map ((!) s) cluster) = (length cluster < 2 * countIn s cluster c)"
  by (simp add: strictMajority_def occurrences_def countIn_def filter_map comp_def)

lemma correctCluster_spec:
  assumes "distinct cluster" and "\<forall>i \<in> set cluster. i < length s"
  shows "length (correctCluster cluster s) = length s
       \<and> (\<forall>j < length s. j \<notin> set cluster \<longrightarrow> correctCluster cluster s ! j = s ! j)
       \<and> (\<forall>j \<in> set cluster. decided (map ((!) s) cluster) (s ! j) (correctCluster cluster s ! j))"
proof (cases "length cluster < 2")
  case True
  have "decided (map ((!) s) cluster) (s ! j) (s ! j)" if "j \<in> set cluster" for j
  proof -
    from that True have c: "cluster = [j]"
      by (cases cluster) (auto simp: less_Suc_eq)
    show ?thesis
      unfolding c decided_def
      by (auto simp: strictMajority_def occurrences_def correctItem_def split: if_splits)
  qed
  with True show ?thesis by (simp add: correctCluster_def)
next
  case False
  obtain mx mc where m: "mostCommon (charCounts s cluster) = (mx, mc)"
    by (cases "mostCommon (charCounts s cluster)")
  note md = majority_decision [OF m]
  have cond: "(real mx > real (length cluster) / 2) = (2 * mx > length cluster)"
    by (simp add: field_simps) linarith
  show ?thesis
  proof (cases "2 * mx > length cluster")
    case True
    with md have maj: "strictMajority mc (map ((!) s) cluster)"
      by (simp add: strictMajority_countIn)
    have uniq: "c = mc" if "strictMajority c (map ((!) s) cluster)" for c
      using that md [of c] by (simp add: strictMajority_countIn)
    have out: "correctCluster cluster s = fold (\<lambda>i store. store[i := correctItem mc (store ! i)]) cluster s"
      using False m cond True by (simp add: correctCluster_def)
    note fu = fold_update_nth [OF assms, of "correctItem mc"]
    have "decided (map ((!) s) cluster) (s ! j) (correctCluster cluster s ! j)" if "j \<in> set cluster" for j
    proof -
      from that assms(2) have "j < length s" by simp
      with fu that have "correctCluster cluster s ! j = correctItem mc (s ! j)"
        unfolding out by simp
      with maj uniq show ?thesis unfolding decided_def by blast
    qed
    with fu show ?thesis unfolding out by simp
  next
    case nomaj: False
    have out: "correctCluster cluster s = s"
      using False m cond nomaj by (simp add: correctCluster_def)
    have "\<not> strictMajority c (map ((!) s) cluster)" for c
      using nomaj md [of c] by (auto simp: strictMajority_countIn)
    then show ?thesis unfolding out decided_def by simp
  qed
qed

lemma indicesOf_distinct: "distinct (indicesOf rs n cid)"
  by (simp add: indicesOf_def)

lemma indicesOf_mem: "i \<in> set (indicesOf rs n cid) \<longleftrightarrow> i < n \<and> clusterId (rs ! i) = Some cid"
  by (auto simp: indicesOf_def)

lemma indicesOf_members: "map ((!) rs) (indicesOf rs (length rs) cid) = clusterMembers cid rs"
proof -
  have "clusterMembers cid rs = filter (\<lambda>r. clusterId r = Some cid) (map ((!) rs) [0..<length rs])"
    by (simp add: clusterMembers_def map_nth)
  also have "\<dots> = map ((!) rs) (indicesOf rs (length rs) cid)"
    by (simp add: filter_map comp_def indicesOf_def)
  finally show ?thesis by simp
qed

lemma fold_clusters_spec:
  assumes "distinct (map fst cl)"
    and "\<forall>(cid, idxs) \<in> set cl. idxs = indicesOf rs (length rs) cid"
    and "length s = length rs"
    and "\<forall>(cid, idxs) \<in> set cl. \<forall>i \<in> set idxs. s ! i = rs ! i"
  shows "length (fold (\<lambda>(cid, cluster) store. correctCluster cluster store) cl s) = length rs
       \<and> (\<forall>j < length rs.
            (case clusterId (rs ! j) of
               Some cid \<Rightarrow>
                 if cid \<in> fst ` set cl
                 then decided (clusterMembers cid rs) (rs ! j)
                        (fold (\<lambda>(cid, cluster) store. correctCluster cluster store) cl s ! j)
                 else fold (\<lambda>(cid, cluster) store. correctCluster cluster store) cl s ! j = s ! j
             | None \<Rightarrow> fold (\<lambda>(cid, cluster) store. correctCluster cluster store) cl s ! j = s ! j))"
  using assms
proof (induction cl arbitrary: s)
  case Nil
  then show ?case by (simp split: option.splits)
next
  case (Cons p cl)
  obtain cid idxs where p: "p = (cid, idxs)" by (cases p)
  let ?F = "fold (\<lambda>(cid, cluster) store. correctCluster cluster store)"
  let ?s1 = "correctCluster idxs s"
  from Cons.prems(2) p have idxs: "idxs = indicesOf rs (length rs) cid" by simp
  have d: "distinct idxs" unfolding idxs by (rule indicesOf_distinct)
  have b: "\<forall>i \<in> set idxs. i < length s"
    unfolding idxs using Cons.prems(3) by (simp add: indicesOf_mem)
  note cs = correctCluster_spec [OF d b]
  have agree: "map ((!) s) idxs = clusterMembers cid rs"
  proof -
    have "map ((!) s) idxs = map ((!) rs) idxs"
      using Cons.prems(4) p by simp
    then show ?thesis unfolding idxs by (simp add: indicesOf_members)
  qed
  have notin: "cid \<notin> fst ` set cl"
    using Cons.prems(1) p by simp
  have len1: "length ?s1 = length rs"
    using cs Cons.prems(3) by simp
  have rest_agree: "\<forall>(cid', idxs') \<in> set cl. \<forall>i \<in> set idxs'. ?s1 ! i = rs ! i"
  proof (clarify)
    fix cid' idxs' i
    assume mem: "(cid', idxs') \<in> set cl" and i: "i \<in> set idxs'"
    from mem Cons.prems(2) have idxs': "idxs' = indicesOf rs (length rs) cid'" by auto
    from mem notin have "cid' \<noteq> cid" by force
    with i idxs' have "i \<notin> set idxs" and "i < length s"
      unfolding idxs using Cons.prems(3) by (auto simp: indicesOf_mem)
    with cs have "?s1 ! i = s ! i" by simp
    also from Cons.prems(4) mem i have "s ! i = rs ! i" by auto
    finally show "?s1 ! i = rs ! i" .
  qed
  from Cons.prems(1,2) have "distinct (map fst cl)"
    and "\<forall>(cid, idxs) \<in> set cl. idxs = indicesOf rs (length rs) cid"
    by simp_all
  note IH = Cons.IH [OF this len1 rest_agree]
  have step: "?F (p # cl) s = ?F cl ?s1"
    by (simp add: p)
  have "(case clusterId (rs ! j) of
               Some cid \<Rightarrow>
                 if cid \<in> fst ` set (p # cl)
                 then decided (clusterMembers cid rs) (rs ! j) (?F cl ?s1 ! j)
                 else ?F cl ?s1 ! j = s ! j
             | None \<Rightarrow> ?F cl ?s1 ! j = s ! j)" if j: "j < length rs" for j
  proof -
    from IH j have ihj: "(case clusterId (rs ! j) of
               Some cid \<Rightarrow>
                 if cid \<in> fst ` set cl
                 then decided (clusterMembers cid rs) (rs ! j) (?F cl ?s1 ! j)
                 else ?F cl ?s1 ! j = ?s1 ! j
             | None \<Rightarrow> ?F cl ?s1 ! j = ?s1 ! j)"
      by blast
    show ?thesis
    proof (cases "clusterId (rs ! j)")
      case None
      then have "j \<notin> set idxs" unfolding idxs by (simp add: indicesOf_mem)
      with cs j Cons.prems(3) have "?s1 ! j = s ! j" by simp
      with ihj None show ?thesis by simp
    next
      case (Some c)
      show ?thesis
      proof (cases "c = cid")
        case True
        with Some j have jin: "j \<in> set idxs" unfolding idxs by (simp add: indicesOf_mem)
        with cs have "decided (map ((!) s) idxs) (s ! j) (?s1 ! j)" by simp
        moreover from jin Cons.prems(4) p have "s ! j = rs ! j" by simp
        moreover from ihj Some True notin have "?F cl ?s1 ! j = ?s1 ! j" by simp
        ultimately show ?thesis using Some True p agree by simp
      next
        case False
        with Some have "j \<notin> set idxs" unfolding idxs by (simp add: indicesOf_mem)
        with cs j Cons.prems(3) have "?s1 ! j = s ! j" by simp
        with ihj Some False p show ?thesis by simp
      qed
    qed
  qed
  with IH show ?case unfolding step by simp
qed

lemma clusterBasedCorrection_spec:
  "length (clusterBasedCorrection rs) = length rs
   \<and> (\<forall>j < length rs.
        (case clusterId (rs ! j) of
           Some cid \<Rightarrow> decided (clusterMembers cid rs) (rs ! j) (clusterBasedCorrection rs ! j)
         | None \<Rightarrow> clusterBasedCorrection rs ! j = rs ! j))"
proof -
  note g = groupByCluster_upto [of rs "length rs", folded groupByCluster_def]
  from g have d: "distinct (map fst (groupByCluster rs))" by blast
  from g have mo: "map_of (groupByCluster rs) cid =
      (if indicesOf rs (length rs) cid = [] then None else Some (indicesOf rs (length rs) cid))" for cid
    by blast
  have a2: "\<forall>(cid, idxs) \<in> set (groupByCluster rs). idxs = indicesOf rs (length rs) cid"
  proof (clarify)
    fix cid idxs assume "(cid, idxs) \<in> set (groupByCluster rs)"
    with d have "map_of (groupByCluster rs) cid = Some idxs" by (rule map_of_is_SomeI)
    with mo [of cid] show "idxs = indicesOf rs (length rs) cid" by (simp split: if_splits)
  qed
  have a4: "\<forall>(cid, idxs) \<in> set (groupByCluster rs). \<forall>i \<in> set idxs. rs ! i = rs ! i"
    by simp
  note fc = fold_clusters_spec [OF d a2 refl a4, folded clusterBasedCorrection_def]
  have keys: "cid \<in> fst ` set (groupByCluster rs)" if "j < length rs" "clusterId (rs ! j) = Some cid" for j cid
  proof -
    from that have "j \<in> set (indicesOf rs (length rs) cid)" by (simp add: indicesOf_mem)
    then have "indicesOf rs (length rs) cid \<noteq> []" by auto
    with mo [of cid] have "map_of (groupByCluster rs) cid \<noteq> None" by simp
    then show ?thesis by (simp add: map_of_eq_None_iff)
  qed
  have "(case clusterId (rs ! j) of
           Some cid \<Rightarrow> decided (clusterMembers cid rs) (rs ! j) (clusterBasedCorrection rs ! j)
         | None \<Rightarrow> clusterBasedCorrection rs ! j = rs ! j)" if "j < length rs" for j
    using fc that keys [OF that] by (auto split: option.splits)
  with fc show ?thesis by simp
qed

lemma clusterBasedCorrection_length: "length (clusterBasedCorrection rs) = length rs"
  using clusterBasedCorrection_spec [of rs] by blast

lemma clusterBasedCorrection_nth:
  assumes "j < length rs"
  shows "(case clusterId (rs ! j) of
           Some cid \<Rightarrow> decided (clusterMembers cid rs) (rs ! j) (clusterBasedCorrection rs ! j)
         | None \<Rightarrow> clusterBasedCorrection rs ! j = rs ! j)"
  using clusterBasedCorrection_spec [of rs] assms by blast

lemma occurrences_two:
  assumes "c \<noteq> d"
  shows "occurrences c ms + occurrences d ms \<le> length ms"
  using assms by (induction ms) (auto simp: occurrences_def)

lemma strictMajority_unique:
  assumes "strictMajority c ms" and "strictMajority d ms"
  shows "c = d"
proof (rule ccontr)
  assume "c \<noteq> d"
  from occurrences_two [OF this, of ms] assms show False
    by (simp add: strictMajority_def)
qed

lemma correctItem_cases:
  "(char r \<noteq> c \<and> confidence r < 50 \<and> correctItem c r = r\<lparr>char := c, mlConfidence := max (mlConfidence r) (6 / 10)\<rparr>)
   \<or> (\<not> (char r \<noteq> c \<and> confidence r < 50) \<and> correctItem c r = r)"
  by (simp add: correctItem_def)

lemma cluster_member_outcome:
  assumes i: "i < length results"
  shows "(char (clusterBasedCorrection results ! i) \<noteq> char (results ! i) \<longrightarrow>
           (\<exists>cid. clusterId (results ! i) = Some cid
                \<and> strictMajority (char (clusterBasedCorrection results ! i)) (clusterMembers cid results))
           \<and> confidence (results ! i) < 50
           \<and> 6 / 10 \<le> mlConfidence (clusterBasedCorrection results ! i)
           \<and> clusterBasedCorrection results ! i =
               (results ! i)\<lparr>char := char (clusterBasedCorrection results ! i),
                               mlConfidence := max (mlConfidence (results ! i)) (6 / 10)\<rparr>)
        \<and> (char (clusterBasedCorrection results ! i) = char (results ! i) \<longrightarrow>
             clusterBasedCorrection results ! i = results ! i)
        \<and> (\<forall>cid c. clusterId (results ! i) = Some cid
                  \<and> strictMajority c (clusterMembers cid results)
                  \<and> char (results ! i) \<noteq> c \<and> confidence (results ! i) < 50 \<longrightarrow>
                  char (clusterBasedCorrection results ! i) = c)"
proof (cases "clusterId (results ! i)")
  case None
  with clusterBasedCorrection_nth [OF i] have "clusterBasedCorrection results ! i = results ! i" by simp
  with None show ?thesis by simp
next
  case (Some cid)
  with clusterBasedCorrection_nth [OF i]
  have dec: "decided (clusterMembers cid results) (results ! i) (clusterBasedCorrection results ! i)"
    by simp
  let ?r = "results ! i"
  let ?out = "clusterBasedCorrection results ! i"
  show ?thesis
  proof (cases "\<exists>c. strictMajority c (clusterMembers cid results)")
    case True
    then obtain c where c: "strictMajority c (clusterMembers cid results)" ..
    with dec have out: "?out = correctItem c ?r"
      unfolding decided_def by blast
    have uniq: "c' = c" if "strictMajority c' (clusterMembers cid results)" for c'
      using that c by (rule strictMajority_unique)
    show ?thesis
    proof (cases "char ?r \<noteq> c \<and> confidence ?r < 50")
      case cond: True
      with correctItem_cases [of ?r c] out
      have o: "?out = ?r\<lparr>char := c, mlConfidence := max (mlConfidence ?r) (6 / 10)\<rparr>" by simp
      then have ch: "char ?out = c" and ml: "mlConfidence ?out = max (mlConfidence ?r) (6 / 10)"
        by simp_all
      have 1: "\<exists>cid. clusterId ?r = Some cid \<and> strictMajority (char ?out) (clusterMembers cid results)"
        using Some c ch by simp
      have 2: "6 / 10 \<le> mlConfidence ?out" unfolding ml by simp
      have 3: "?out = ?r\<lparr>char := char ?out, mlConfidence := max (mlConfidence ?r) (6 / 10)\<rparr>"
        unfolding ch by (rule o)
      have 4: "char ?out \<noteq> char ?r" using cond ch by auto
      have 5: "char ?out = c'" if "clusterId ?r = Some cid'" "strictMajority c' (clusterMembers cid' results)" for cid' c'
        using that Some uniq ch by simp
      from 1 2 3 4 5 cond show ?thesis by blast
    next
      case ncond: False
      with correctItem_cases [of ?r c] out have o: "?out = ?r" by auto
      have "\<not> (char ?r \<noteq> c' \<and> confidence ?r < 50)"
        if "clusterId ?r = Some cid'" "strictMajority c' (clusterMembers cid' results)" for cid' c'
        using that Some uniq ncond by auto
      then show ?thesis unfolding o by blast
    qed
  next
    case False
    with dec have "?out = ?r"
      unfolding decided_def by blast
    with Some False show ?thesis by auto
  qed
qed

text \<open>
  Claim C1. In the cluster-majority pass, for every list of results and every member \<open>i\<close>
  of a cluster: the character of the member is replaced only by a character that occurs in
  strictly more than half of the members of its cluster (so the most common one), and only
  when the member's own confidence is below 50; a replaced member gets
  \<open>mlConfidence = max(mlConfidence, 0.6)\<close>, which is at least \<open>0.6\<close>, and keeps every other
  field; a member whose character stays is left as it was; and a member below confidence
  50 whose character differs from the majority character is replaced.
\<close>

theorem cluster_majority_correction:
  "length (clusterBasedCorrection results) = length results
   \<and> (\<forall>i < length results.
        (char (clusterBasedCorrection results ! i) \<noteq> char (results ! i) \<longrightarrow>
           (\<exists>cid. clusterId (results ! i) = Some cid
                \<and> strictMajority (char (clusterBasedCorrection results ! i)) (clusterMembers cid results))
           \<and> confidence (results ! i) < 50
           \<and> 6 / 10 \<le> mlConfidence (clusterBasedCorrection results ! i)
           \<and> clusterBasedCorrection results ! i =
               (results ! i)\<lparr>char := char (clusterBasedCorrection results ! i),
                               mlConfidence := max (mlConfidence (results ! i)) (6 / 10)\<rparr>)
        \<and> (char (clusterBasedCorrection results ! i) = char (results ! i) \<longrightarrow>
             clusterBasedCorrection results ! i = results ! i)
        \<and> (\<forall>cid c. clusterId (results ! i) = Some cid
                  \<and> strictMajority c (clusterMembers cid results)
                  \<and> char (results ! i) \<noteq> c \<and> confidence (results ! i) < 50 \<longrightarrow>
                  char (clusterBasedCorrection results ! i) = c))"
proof (rule conjI)
  show "length (clusterBasedCorrection results) = length results"
    by (rule clusterBasedCorrection_length)
next
  show "\<forall>i < length results.
        (char (clusterBasedCorrection results ! i) \<noteq> char (results ! i) \<longrightarrow>
           (\<exists>cid. clusterId (results ! i) = Some cid
                \<and> strictMajority (char (clusterBasedCorrection results ! i)) (clusterMembers cid results))
           \<and> confidence (results ! i) < 50
           \<and> 6 / 10 \<le> mlConfidence (clusterBasedCorrection results ! i)
           \<and> clusterBasedCorrection results ! i =
               (results ! i)\<lparr>char := char (clusterBasedCorrection results ! i),
                               mlConfidence := max (mlConfidence (results ! i)) (6 / 10)\<rparr>)
        \<and> (char (clusterBasedCorrection results ! i) = char (results ! i) \<longrightarrow>
             clusterBasedCorrection results ! i = results ! i)
        \<and> (\<forall>cid c. clusterId (results ! i) = Some cid
                  \<and> strictMajority c (clusterMembers cid results)
                  \<and> char (results ! i) \<noteq> c \<and> confidence (results ! i) < 50 \<longrightarrow>
                  char (clusterBasedCorrection results ! i) = c)"
  proof (intro allI impI)
    fix i assume "i < length results"
    then show "(char (clusterBasedCorrection results ! i) \<noteq> char (results ! i) \<longrightarrow>
           (\<exists>cid. clusterId (results ! i) = Some cid
                \<and> strictMajority (char (clusterBasedCorrection results ! i)) (clusterMembers cid results))
           \<and> confidence (results ! i) < 50
           \<and> 6 / 10 \<le> mlConfidence (clusterBasedCorrection results ! i)
           \<and> clusterBasedCorrection results ! i =
               (results ! i)\<lparr>char := char (clusterBasedCorrection results ! i),
                               mlConfidence := max (mlConfidence (results ! i)) (6 / 10)\<rparr>)
        \<and> (char (clusterBasedCorrection results ! i) = char (results ! i) \<longrightarrow>
             clusterBasedCorrection results ! i = results ! i)
        \<and> (\<forall>cid c. clusterId (results ! i) = Some cid
                  \<and> strictMajority c (clusterMembers cid results)
                  \<and> char (results ! i) \<noteq> c \<and> confidence (results ! i) < 50 \<longrightarrow>
                  char (clusterBasedCorrection results ! i) = c)"
      by (rule cluster_member_outcome)
  qed
qed

lemma sample_cluster_run:
  "clusterBasedCorrection sampleResults =
     [sampleResult ''A'' 30 0 0 (Some 0), sampleResult ''B'' 40 12 0 (Some 1),
      sampleResult ''A'' 90 24 0 (Some 0),
      (sampleResult ''B'' 45 36 0 (Some 0))\<lparr>char := ''A'', mlConfidence := 6 / 10\<rparr>]"
  by (simp add: clusterBasedCorrection_def groupByCluster_def groupByCluster_step_def
      sampleResults_def sampleResult_def correctCluster_def charCounts_def charCounts_step_def
      mostCommon_def correctItem_def)

theorem cluster_majority_correction_witness:
  "length (clusterBasedCorrection sampleResults) = length sampleResults
   \<and> char (sampleResults ! 3) = ''B''
   \<and> char (clusterBasedCorrection sampleResults ! 3) = ''A''
   \<and> clusterId (sampleResults ! 3) = Some 0
   \<and> strictMajority ''A'' (clusterMembers 0 sampleResults)
   \<and> confidence (sampleResults ! 3) < 50
   \<and> 6 / 10 \<le> mlConfidence (clusterBasedCorrection sampleResults ! 3)
   \<and> clusterBasedCorrection sampleResults ! 1 = sampleResults ! 1"
  using cluster_majority_correction [of sampleResults]
  by (simp add: sample_cluster_run)
     (simp add: sampleResults_def sampleResult_def strictMajority_def clusterMembers_def occurrences_def)

section \<open>Context correction\<close>









section \<open>Import of training data that does not parse\<close>

text \<open>
  Claim C3 says that an import of a string that does not parse leaves the stored list as
  it was and reports the failure to the caller. The first half holds. The second does
  not: on the string \<^verbatim>\<open>{\<close> the call returns normally, exactly as the successful import
  of \<^verbatim>\<open>[]\<close> does, and the only trace of the failure is a line on the console.
\<close>

theorem import_failure_not_reported:
  "snd (importTrainingData parseEmptyArrayOnly ''{'' sampleEngine) = Inr ()
   \<and> snd (importTrainingData parseEmptyArrayOnly ''[]'' sampleEngine) = Inr ()
   \<and> parseEmptyArrayOnly ''{'' = Inl SyntaxError
   \<and> trainingData (fst (importTrainingData parseEmptyArrayOnly ''{'' sampleEngine))
       = trainingData sampleEngine"
  by (simp add: importTrainingData_def parseEmptyArrayOnly_def sampleEngine_def)

text \<open>
  Claim C3, amended. For every stored list and every string that the parser rejects, the
  stored list after the call equals the list before it, the call returns normally to its
  caller, and the failure is written to the console and nowhere else. Every call of
  \<^verbatim>\<open>importTrainingData\<close> returns normally.
\<close>

theorem import_failure_keeps_state:
  assumes "JSON_parse str = Inl e"
  shows "trainingData (fst (importTrainingData JSON_parse str this)) = trainingData this
       \<and> snd (importTrainingData JSON_parse str this) = Inr ()
       \<and> console_error (fst (importTrainingData JSON_parse str this))
           = console_error this @ [''Failed to import training data:'']
       \<and> snd (importTrainingData JSON_parse str' this) = Inr ()"
  using assms by (simp add: importTrainingData_def split: sum.splits)

theorem import_failure_keeps_state_witness:
  "parseEmptyArrayOnly ''{'' = Inl SyntaxError
   \<and> trainingData (fst (importTrainingData parseEmptyArrayOnly ''{'' sampleEngine))
       = [\<lparr>sample_features = [Num 1, Num 0], sample_label = ''A''\<rparr>]
   \<and> snd (importTrainingData parseEmptyArrayOnly ''{'' sampleEngine) = Inr ()
   \<and> console_error (fst (importTrainingData parseEmptyArrayOnly ''{'' sampleEngine))
       = [''Failed to import training data:'']"
  using import_failure_keeps_state [of parseEmptyArrayOnly "''{''" SyntaxError sampleEngine "''{''"]
  by (simp add: parseEmptyArrayOnly_def sampleEngine_def)

section \<open>The arity of the feature vector\<close>

lemma length_hog_pixel: "length (hog_pixel img y x hist) = length hist"
  by (simp add: hog_pixel_def Let_def split: option.splits)

lemma length_fold_hog_pixel: "length (fold (hog_pixel img y) xs hist) = length hist"
  by (induction xs arbitrary: hist) (simp_all add: length_hog_pixel)

lemma length_fold_hog_rows:
  "length (fold (\<lambda>y. fold (hog_pixel img y) xs) ys hist) = length hist"
  by (induction ys arbitrary: hist) (simp_all add: length_fold_hog_pixel)

lemma length_hog_cell: "length (hog_cell img cellSize cx cy) = 9"
  by (simp add: hog_cell_def Let_def length_fold_hog_rows)

lemma length_concat_const:
  assumes "\<And>x. x \<in> set xs \<Longrightarrow> length (f x) = n"
  shows "length (concat (map f xs)) = n * length xs"
  using assms by (induction xs) simp_all

lemma length_extractHOGFeatures:
  assumes "extractHOGFeatures img cellSize = Some fs" and "0 < cellSize"
  shows "length fs = 9 * ((width img + cellSize - 1) div cellSize) * ((height img + cellSize - 1) div cellSize)"
proof -
  let ?nx = "(width img + cellSize - 1) div cellSize" and ?ny = "(height img + cellSize - 1) div cellSize"
  have row: "length (concat (map (\<lambda>cx. map Num (hog_cell img cellSize cx cy)) [0..<?nx])) = 9 * ?nx" for cy
    using length_concat_const [of "[0..<?nx]" "\<lambda>cx. map Num (hog_cell img cellSize cx cy)" 9]
    by (simp add: length_hog_cell)
  have "length (concat (map (\<lambda>cy. concat (map (\<lambda>cx. map Num (hog_cell img cellSize cx cy)) [0..<?nx]))
                          [0..<?ny])) = 9 * ?nx * length [0..<?ny]"
    by (rule length_concat_const) (rule row)
  then have "length (concat (map (\<lambda>cy. concat (map (\<lambda>cx. map Num (hog_cell img cellSize cx cy)) [0..<?nx]))
                          [0..<?ny])) = 9 * ?nx * ?ny"
    by simp
  with assms show ?thesis
    by (auto simp: extractHOGFeatures_def Let_def)
qed

lemma profile_fold:
  assumes "\<forall>a \<in> set as. a < length acc"
  shows "length (fold (\<lambda>a. fold (\<lambda>b acc. if P a b then acc[a := acc ! a + 1] else acc) bs) as acc)
           = length acc
       \<and> sum_list (fold (\<lambda>a. fold (\<lambda>b acc. if P a b then acc[a := acc ! a + 1] else acc) bs) as acc)
           = sum_list acc + (\<Sum>a\<leftarrow>as. length (filter (P a) bs))"
  using assms
proof (induction as arbitrary: acc)
  case Nil
  then show ?case by simp
next
  case (Cons a as)
  from Cons.prems have a: "a < length (acc :: nat list)" by simp
  have inner: "length (fold (\<lambda>b acc. if P a b then acc[a := acc ! a + 1] else acc) bs acc) = length acc
       \<and> sum_list (fold (\<lambda>b acc. if P a b then acc[a := acc ! a + 1] else acc) bs acc)
           = sum_list acc + length (filter (P a) bs)"
    using a by (induction bs arbitrary: acc) (simp_all add: sum_list_update)
  let ?acc = "fold (\<lambda>b acc. if P a b then acc[a := acc ! a + 1] else acc) bs acc"
  from Cons.prems inner have "\<forall>a \<in> set as. a < length ?acc" by simp
  from Cons.IH [OF this] inner show ?case by simp
qed

lemma nested_count_positive:
  "0 < (\<Sum>a\<leftarrow>as. length (filter (P a) bs)) \<longleftrightarrow> (\<exists>a \<in> set as. \<exists>b \<in> set bs. P a b)"
  by (induction as) (auto simp: filter_empty_conv)

lemma fold_max_zero: "fold max xs (m :: nat) = 0 \<longleftrightarrow> m = 0 \<and> sum_list xs = 0"
  by (induction xs arbitrary: m) (auto simp: max_def)

lemma fold_max_positive: "0 < fold max xs (m :: nat) \<longleftrightarrow> 0 < m \<or> 0 < sum_list xs"
proof -
  have "0 < fold max xs m \<longleftrightarrow> fold max xs m \<noteq> 0" by simp
  also have "\<dots> \<longleftrightarrow> \<not> (m = 0 \<and> sum_list xs = 0)" by (simp only: fold_max_zero)
  also have "\<dots> \<longleftrightarrow> 0 < m \<or> 0 < sum_list xs" by (simp only: de_Morgan_conj neq0_conv)
  finally show ?thesis .
qed

lemma hasForeground_count: "hasForeground img \<longleftrightarrow> 0 < foregroundCount img"
  unfolding foregroundCount_def count_rows [of "foregroundAt img" "width img" "height img"]
    nested_count_positive hasForeground_def ..

lemma rowProfile_spec:
  "length (rowProfile img) = height img \<and> (0 < fold max (rowProfile img) 0 \<longleftrightarrow> hasForeground img)"
proof -
  have "\<forall>a \<in> set [0..<height img]. a < length (replicate (height img) (0::nat))" by simp
  from profile_fold [OF this, of "\<lambda>y x. below128 (sample img ((y * width img + x) * 4))" "[0..<width img]"]
  show ?thesis
    by (simp add: rowProfile_def fold_max_positive nested_count_positive hasForeground_def foregroundAt_def
        sum_list_replicate)
qed

lemma columnProfile_spec:
  "length (columnProfile img) = width img \<and> (0 < fold max (columnProfile img) 0 \<longleftrightarrow> hasForeground img)"
proof -
  have "\<forall>a \<in> set [0..<width img]. a < length (replicate (width img) (0::nat))" by simp
  from profile_fold [OF this, of "\<lambda>x y. below128 (sample img ((y * width img + x) * 4))" "[0..<height img]"]
  show ?thesis
    by (auto simp: columnProfile_def fold_max_positive nested_count_positive hasForeground_def foregroundAt_def
        sum_list_replicate)
qed

lemma length_extractProjectionFeatures:
  "length (extractProjectionFeatures img) = (if 0 < foregroundCount img then height img + width img else 0)"
  using rowProfile_spec [of img] columnProfile_spec [of img]
  by (simp add: extractProjectionFeatures_def Let_def hasForeground_count)

lemma length_extractContourFeatures: "length (extractContourFeatures img) = 5"
  by (simp add: extractContourFeatures_def Let_def split: prod.splits)

lemma extractAllFeatures_length:
  "\<exists>fs. extractAllFeatures img = Some fs
     \<and> length fs = 9 * ((width img + 7) div 8) * ((height img + 7) div 8)
                   + (if 0 < foregroundCount img then height img + width img else 0) + 5"
proof -
  obtain hog where hog: "extractHOGFeatures img 8 = Some hog"
    by (simp add: extractHOGFeatures_def Let_def)
  from length_extractHOGFeatures [OF hog]
  have "length hog = 9 * ((width img + 7) div 8) * ((height img + 7) div 8)"
    by (simp add: add.commute)
  with hog show ?thesis
    by (simp add: extractAllFeatures_def length_extractProjectionFeatures length_extractContourFeatures)
qed

lemma sample_foreground_counts:
  "foregroundCount whitePixel = 0" "foregroundCount blackPixel = 1"
  "foregroundCount darkPixel = 1" "foregroundCount blackAndWhite = 1"
  by (simp_all add: foregroundCount_def foregroundAt_def below128_def sample_def
      whitePixel_def blackPixel_def darkPixel_def blackAndWhite_def upt_rec)

text \<open>
  Claim C4 says that, for the fixed cell size 8, the vectors of all images have one
  length. They do not: the vector of a white pixel has 14 entries and the vector of a
  black pixel, an image of the same width and height, has 16; the vector of two pixels
  side by side has 17.
\<close>

theorem feature_arity_varies:
  "map_option length (extractAllFeatures whitePixel) = Some 14
   \<and> map_option length (extractAllFeatures blackPixel) = Some 16
   \<and> map_option length (extractAllFeatures blackAndWhite) = Some 17
   \<and> width whitePixel = width blackPixel \<and> height whitePixel = height blackPixel"
  using extractAllFeatures_length [of whitePixel] extractAllFeatures_length [of blackPixel]
    extractAllFeatures_length [of blackAndWhite]
  by (auto simp: sample_foreground_counts)
     (simp_all add: whitePixel_def blackPixel_def blackAndWhite_def)

text \<open>
  Claim C4, amended. For the cell size 8, \<^verbatim>\<open>extractAllFeatures\<close> returns, for an image of
  width \<open>w\<close> and height \<open>h\<close>, a vector of \<open>9 \<cdot> ceil(w / 8) \<cdot> ceil(h / 8) + 5\<close> entries, and
  of \<open>h + w\<close> more when the image has a foreground pixel. So the vectors of two images have
  the same length when the images agree in width and height and both have, or both lack,
  a foreground pixel.
\<close>

theorem feature_arity_formula:
  "(\<exists>fs. extractAllFeatures img = Some fs
       \<and> length fs = 9 * ((width img + 7) div 8) * ((height img + 7) div 8)
                     + (if 0 < foregroundCount img then height img + width img else 0) + 5)
   \<and> (width img = width img' \<and> height img = height img'
        \<and> (0 < foregroundCount img \<longleftrightarrow> 0 < foregroundCount img') \<longrightarrow>
      map_option length (extractAllFeatures img) = map_option length (extractAllFeatures img'))"
  using extractAllFeatures_length [of img] extractAllFeatures_length [of img']
  by auto

theorem feature_arity_formula_witness:
  "width blackPixel = width darkPixel \<and> height blackPixel = height darkPixel
   \<and> 0 < foregroundCount blackPixel \<and> 0 < foregroundCount darkPixel
   \<and> map_option length (extractAllFeatures blackPixel) = Some 16
   \<and> map_option length (extractAllFeatures darkPixel) = Some 16"
proof -
  have dims: "width blackPixel = 1" "height blackPixel = 1" "width darkPixel = 1" "height darkPixel = 1"
    by (simp_all add: blackPixel_def darkPixel_def)
  note fg = sample_foreground_counts(2,3)
  from feature_arity_formula [of blackPixel darkPixel]
  obtain fs where "extractAllFeatures blackPixel = Some fs" and "length fs = 16"
    and "map_option length (extractAllFeatures blackPixel) = map_option length (extractAllFeatures darkPixel)"
    unfolding dims fg by auto
  then have "map_option length (extractAllFeatures blackPixel) = Some 16"
    and "map_option length (extractAllFeatures darkPixel) = Some 16"
    by simp_all
  then show ?thesis unfolding dims fg by simp
qed

section \<open>The components of a solid block and the size filter\<close>

text \<open>
  The index of a pixel, and the labels of its four neighbours while the first pass runs
  over an image whose foreground is the block: the pixels of the block visited so far
  have the label 0, the others none.
\<close>

lemma pixel_index_less:
  assumes "x < W" and "y < H"
  shows "y * W + x < W * (H :: nat)"
proof -
  from assms(1) have "y * W + x < Suc y * W" by simp
  also from assms(2) have "Suc y * W \<le> H * W" by (intro mult_le_mono1) simp
  finally show ?thesis by (simp add: mult.commute)
qed

lemma pixel_index_eq:
  assumes "x < W" and "x' < (W :: nat)"
  shows "(y * W + x = y' * W + x') = (y = y' \<and> x = x')"
proof
  assume eq: "y * W + x = y' * W + x'"
  then have "(y * W + x) div W = (y' * W + x') div W" and "(y * W + x) mod W = (y' * W + x') mod W"
    by simp_all
  with assms show "y = y' \<and> x = x'" by simp
qed simp

lemma neighbour_indices:
  "0 < x \<Longrightarrow> y * W + x - 1 = y * W + (x - 1)"
  "0 < y \<Longrightarrow> y * W + x - W = (y - 1) * W + x"
  "0 < x \<Longrightarrow> 0 < y \<Longrightarrow> y * W + x - W - 1 = (y - 1) * W + (x - 1)"
  "0 < y \<Longrightarrow> y * W + x - W + 1 = (y - 1) * W + (x + 1)"
  for x y W :: nat
  by (cases y; simp)+

lemma labelAt_block:
  assumes "blockLabels W H x0 y0 x y labels" and "x' < W" and "y' < H"
  shows "labelAt labels (y' * W + x') =
           (if visitedBefore x y x' y' \<and> inBlock x0 y0 x' y' then [0] else [])"
  using assms by (simp add: blockLabels_def labelAt_def)

lemma neighborLabels_block:
  assumes inv: "blockLabels W H x0 y0 x y labels" and x: "x < W" and y: "y < H"
  shows "neighborLabels W labels x y =
           (if 0 < x \<and> inBlock x0 y0 (x - 1) y then [0] else [])
         @ (if 0 < y \<and> inBlock x0 y0 x (y - 1) then [0] else [])
         @ (if 0 < x \<and> 0 < y \<and> inBlock x0 y0 (x - 1) (y - 1) then [0] else [])
         @ (if x < W - 1 \<and> 0 < y \<and> inBlock x0 y0 (x + 1) (y - 1) then [0] else [])"
proof -
  have l: "labelAt labels (y * W + x - 1) = (if inBlock x0 y0 (x - 1) y then [0] else [])" if "0 < x"
    using that labelAt_block [OF inv, of "x - 1" y] x y
    by (simp add: neighbour_indices visitedBefore_def)
  have u: "labelAt labels (y * W + x - W) = (if inBlock x0 y0 x (y - 1) then [0] else [])" if "0 < y"
    using that labelAt_block [OF inv, of x "y - 1"] x y
    by (simp add: neighbour_indices visitedBefore_def)
  have ul: "labelAt labels (y * W + x - W - 1) = (if inBlock x0 y0 (x - 1) (y - 1) then [0] else [])"
    if "0 < x" "0 < y"
    using that labelAt_block [OF inv, of "x - 1" "y - 1"] x y
    by (simp add: neighbour_indices visitedBefore_def)
  have ur: "labelAt labels (y * W + x - W + 1) = (if inBlock x0 y0 (x + 1) (y - 1) then [0] else [])"
    if "x < W - 1" "0 < y"
    using that labelAt_block [OF inv, of "x + 1" "y - 1"] x y
    by (simp add: neighbour_indices visitedBefore_def)
  show ?thesis
    unfolding neighborLabels_def Let_def
    using l u ul ur by auto
qed


lemma four_flags_zeros:
  "set ((if a then [0] else []) @ (if b then [0] else []) @ (if c then [0] else [])
        @ (if d then [0] else [])) \<subseteq> {0 :: nat}"
  by auto

lemma fold_min_zeros:
  assumes "set ns \<subseteq> {0 :: nat}"
  shows "fold min ns 0 = 0"
  using assms by (induction ns) auto

lemma fold_no_merge:
  assumes "set ns \<subseteq> {0 :: nat}"
  shows "fold (\<lambda>lbl st. if lbl \<noteq> 0 then mergeInto 0 lbl st else st) ns st = st"
  using assms by (induction ns arbitrary: st) auto

lemma fold_no_merge_pos:
  assumes "set ns \<subseteq> {0 :: nat}"
  shows "fold (\<lambda>lbl st. if 0 < lbl then mergeInto 0 lbl st else st) ns st = st"
  using assms by (induction ns arbitrary: st) auto

lemma visitedBefore_Suc:
  "visitedBefore (Suc x) y x' y' = (visitedBefore x y x' y' \<or> (x' = x \<and> y' = y))"
  by (auto simp: visitedBefore_def)

lemma blockLabels_skip:
  assumes "blockLabels W H x0 y0 x y labels" and "\<not> inBlock x0 y0 x y"
  shows "blockLabels W H x0 y0 (Suc x) y labels"
  using assms by (auto simp: blockLabels_def visitedBefore_Suc)

lemma blockLabels_mark:
  assumes inv: "blockLabels W H x0 y0 x y labels" and blk: "inBlock x0 y0 x y"
    and x: "x < W" and y: "y < H"
  shows "blockLabels W H x0 y0 (Suc x) y (labels[y * W + x := Some 0])"
proof -
  from inv have len: "length labels = W * H" by (simp add: blockLabels_def)
  have idx: "y * W + x < length labels"
    unfolding len using x y by (rule pixel_index_less)
  have "labels[y * W + x := Some 0] ! (y' * W + x') =
          (if visitedBefore (Suc x) y x' y' \<and> inBlock x0 y0 x' y' then Some 0 else None)"
    if "y' < H" "x' < W" for x' y'
  proof (cases "x' = x \<and> y' = y")
    case True
    with idx blk show ?thesis by (simp add: visitedBefore_Suc)
  next
    case False
    with x that have "y * W + x \<noteq> y' * W + x'"
      by (auto simp: pixel_index_eq)
    with inv that False show ?thesis
      by (auto simp: blockLabels_def visitedBefore_Suc)
  qed
  with len show ?thesis by (simp add: blockLabels_def)
qed

lemma label_step_block:
  assumes inv: "blockInv (width bin) H x0 y0 x y st"
    and fg: "(\<not> atLeast128 (sample bin ((y * width bin + x) * 4))) = inBlock x0 y0 x y"
    and x: "x < width bin" and y: "y < H"
  shows "blockInv (width bin) H x0 y0 (Suc x) y (label_step bin y x st)"
proof (cases "inBlock x0 y0 x y")
  case False
  with fg have "label_step bin y x st = st"
    by (simp add: label_step_def)
  moreover have "visitedBefore (Suc x) y x0 y0 = visitedBefore x y x0 y0"
    using False by (auto simp: visitedBefore_Suc inBlock_def)
  ultimately show ?thesis
    using inv False by (simp add: blockInv_def blockLabels_skip)
next
  case True
  let ?W = "width bin"
  from inv have lab: "blockLabels ?W H x0 y0 x y (cc_labels st)"
    by (simp add: blockInv_def)
  note nb = neighborLabels_block [OF lab x y]
  show ?thesis
  proof (cases "x = x0 \<and> y = y0")
    case start: True
    then have "neighborLabels ?W (cc_labels st) x y = []"
      unfolding nb by (auto simp: inBlock_def)
    moreover from inv start have "currentLabel st = 0" "labelMap st = []" "labelSets st = []"
      by (simp_all add: blockInv_def visitedBefore_def)
    ultimately have "label_step bin y x st =
        st\<lparr>cc_labels := (cc_labels st)[y * ?W + x := Some 0], labelMap := [0],
           labelSets := [[0]], currentLabel := 1\<rparr>"
      using fg True by (simp add: label_step_def)
    moreover have "visitedBefore (Suc x) y x0 y0"
      using start by (simp add: visitedBefore_Suc)
    ultimately show ?thesis
      using blockLabels_mark [OF lab True x y] by (simp add: blockInv_def)
  next
    case later: False
    with True have before: "visitedBefore x y x0 y0"
      by (auto simp: inBlock_def visitedBefore_def)
    have zeros: "set (neighborLabels ?W (cc_labels st) x y) \<subseteq> {0}"
      unfolding nb by (rule four_flags_zeros)
    have nonempty: "neighborLabels ?W (cc_labels st) x y \<noteq> []"
    proof (cases "x0 < x")
      case True
      with \<open>inBlock x0 y0 x y\<close> have "0 < x \<and> inBlock x0 y0 (x - 1) y"
        by (auto simp: inBlock_def)
      then show ?thesis unfolding nb by simp
    next
      case False
      with later True have "0 < y \<and> inBlock x0 y0 x (y - 1)"
        by (auto simp: inBlock_def)
      then show ?thesis unfolding nb by simp
    qed
    from zeros nonempty have hd0: "hd (neighborLabels ?W (cc_labels st) x y) = 0"
      by (cases "neighborLabels ?W (cc_labels st) x y") auto
    have "label_step bin y x st = st\<lparr>cc_labels := (cc_labels st)[y * ?W + x := Some 0]\<rparr>"
      using fg True nonempty
      by (simp add: label_step_def Let_def hd0 fold_min_zeros [OF zeros] fold_no_merge [OF zeros]
          fold_no_merge_pos [OF zeros])
    moreover have "visitedBefore (Suc x) y x0 y0"
      using before by (simp add: visitedBefore_Suc)
    ultimately show ?thesis
      using inv before blockLabels_mark [OF lab True x y] by (simp add: blockInv_def)
  qed
qed

lemma label_row_block:
  assumes inv: "blockInv (width bin) H x0 y0 0 y st"
    and fg: "\<forall>x < width bin. (\<not> atLeast128 (sample bin ((y * width bin + x) * 4))) = inBlock x0 y0 x y"
    and y: "y < H" and n: "n \<le> width bin"
  shows "blockInv (width bin) H x0 y0 n y (fold (label_step bin y) [0..<n] st)"
  using n
proof (induction n)
  case 0
  with inv show ?case by simp
next
  case (Suc n)
  then have n: "n < width bin" by simp
  with Suc have "blockInv (width bin) H x0 y0 n y (fold (label_step bin y) [0..<n] st)" by simp
  from label_step_block [OF this _ n y] fg n show ?case by simp
qed

lemma visitedBefore_next_row:
  assumes "x' < W"
  shows "visitedBefore W y x' y' = visitedBefore 0 (Suc y) x' y'"
  using assms by (auto simp: visitedBefore_def)

lemma blockInv_next_row:
  assumes "blockInv W H x0 y0 W y st" and "x0 < W"
  shows "blockInv W H x0 y0 0 (Suc y) st"
  using assms
  by (simp add: blockInv_def blockLabels_def visitedBefore_next_row cong: if_cong)


lemma labelPass_rows:
  assumes fg: "\<forall>y < H. \<forall>x < width bin.
                 (\<not> atLeast128 (sample bin ((y * width bin + x) * 4))) = inBlock x0 y0 x y"
    and x0: "x0 < width bin" and m: "m \<le> H"
  shows "blockInv (width bin) H x0 y0 0 m
           (fold (\<lambda>y. fold (label_step bin y) [0..<width bin]) [0..<m]
              \<lparr>cc_labels = replicate (width bin * H) None, currentLabel = 0,
               labelMap = [], labelSets = []\<rparr>)"
  using m
proof (induction m)
  case 0
  have "y' * width bin + x' < width bin * H" if "x' < width bin" "y' < H" for x' y'
    using that by (rule pixel_index_less)
  then show ?case
    by (simp add: blockInv_def blockLabels_def visitedBefore_def)
next
  case (Suc m)
  then have m: "m < H" by simp
  with Suc have "blockInv (width bin) H x0 y0 0 m
           (fold (\<lambda>y. fold (label_step bin y) [0..<width bin]) [0..<m]
              \<lparr>cc_labels = replicate (width bin * H) None, currentLabel = 0,
               labelMap = [], labelSets = []\<rparr>)"
    by simp
  from label_row_block [OF this _ m order_refl] fg m
  have "blockInv (width bin) H x0 y0 (width bin) m
           (fold (\<lambda>y. fold (label_step bin y) [0..<width bin]) [0..<Suc m]
              \<lparr>cc_labels = replicate (width bin * H) None, currentLabel = 0,
               labelMap = [], labelSets = []\<rparr>)"
    by simp
  then show ?case using x0 by (rule blockInv_next_row)
qed

lemma finalLabels_block:
  assumes inv: "blockInv W H x0 y0 0 H st" and y0: "y0 < H" and x: "x < W" and y: "y < H"
  shows "finalLabels st ! (y * W + x) = (if inBlock x0 y0 x y then Some 0 else None)"
proof -
  from inv have len: "length (cc_labels st) = W * H"
    and lab: "cc_labels st ! (y * W + x) = (if inBlock x0 y0 x y then Some 0 else None)"
    using x y by (simp_all add: blockInv_def blockLabels_def visitedBefore_def)
  from inv y0 have sets: "labelMap st = [0]" "labelSets st = [[0]]"
    by (simp_all add: blockInv_def visitedBefore_def)
  have "y * W + x < length (cc_labels st)"
    unfolding len using x y by (rule pixel_index_less)
  then show ?thesis
    by (simp add: finalLabels_def lab sets)
qed

lemma box_step_block:
  assumes final: "final ! (y * W + x) = (if inBlock x0 y0 x y then Some 0 else None)"
    and inv: "boxInv x0 y0 x y boxes"
  shows "boxInv x0 y0 (Suc x) y (box_step W final y x boxes)"
proof (cases "inBlock x0 y0 x y")
  case False
  with final have same: "box_step W final y x boxes = boxes"
    by (simp add: box_step_def)
  have "visitedBefore (Suc x) y x0 y0 = visitedBefore x y x0 y0"
    using False by (auto simp: visitedBefore_Suc inBlock_def)
  moreover have "(visitedBefore (Suc x) y x' y' \<and> inBlock x0 y0 x' y')
      = (visitedBefore x y x' y' \<and> inBlock x0 y0 x' y')" for x' y'
    using False by (auto simp: visitedBefore_Suc)
  ultimately show ?thesis
    using inv unfolding same boxInv_def by simp
next
  case True
  have after: "visitedBefore (Suc x) y x0 y0"
    using True by (auto simp: visitedBefore_def inBlock_def)
  show ?thesis
  proof (cases "visitedBefore x y x0 y0")
    case False
    with True have start: "x = x0" "y = y0"
      by (auto simp: visitedBefore_def inBlock_def)
    from inv False have "boxes = []" by (simp add: boxInv_def)
    with final True have "box_step W final y x boxes = [(0, \<lparr>minX = x, minY = y, maxX = x, maxY = y\<rparr>)]"
      by (simp add: box_step_def)
    moreover have "x' = x0 \<and> y' = y0"
      if "visitedBefore (Suc x0) y0 x' y'" "inBlock x0 y0 x' y'" for x' y'
      using that by (auto simp: visitedBefore_def inBlock_def)
    ultimately show ?thesis
      using after start unfolding boxInv_def by auto
  next
    case started: True
    with inv obtain b where b: "boxes = [(0, b)]" "minX b = x0" "minY b = y0"
      "maxX b \<le> x0 + 4" "maxY b \<le> y0 + 4"
      "\<And>x' y'. visitedBefore x y x' y' \<Longrightarrow> inBlock x0 y0 x' y' \<Longrightarrow> x' \<le> maxX b \<and> y' \<le> maxY b"
      unfolding boxInv_def by auto
    let ?b = "\<lparr>minX = min (minX b) x, minY = min (minY b) y,
                maxX = max (maxX b) x, maxY = max (maxY b) y\<rparr>"
    from final True b(1) have step: "box_step W final y x boxes = [(0, ?b)]"
      by (simp add: box_step_def)
    from True b have bounds: "minX ?b = x0 \<and> minY ?b = y0 \<and> maxX ?b \<le> x0 + 4 \<and> maxY ?b \<le> y0 + 4"
      by (auto simp: inBlock_def)
    have cover: "x' \<le> maxX ?b \<and> y' \<le> maxY ?b"
      if "visitedBefore (Suc x) y x' y' \<and> inBlock x0 y0 x' y'" for x' y'
    proof (cases "x' = x \<and> y' = y")
      case True
      then show ?thesis by simp
    next
      case False
      with that have "visitedBefore x y x' y'" by (simp add: visitedBefore_Suc)
      from b(6) [OF this] that show ?thesis by auto
    qed
    have "\<exists>ba. [(0, ?b)] = [(0, ba)] \<and> minX ba = x0 \<and> minY ba = y0
                \<and> maxX ba \<le> x0 + 4 \<and> maxY ba \<le> y0 + 4
                \<and> (\<forall>x' y'. visitedBefore (Suc x) y x' y' \<and> inBlock x0 y0 x' y' \<longrightarrow>
                      x' \<le> maxX ba \<and> y' \<le> maxY ba)"
    proof (intro exI [of _ ?b] conjI allI impI)
      show "[(0, ?b)] = [(0, ?b)]" ..
      from bounds show "minX ?b = x0" "minY ?b = y0" "maxX ?b \<le> x0 + 4" "maxY ?b \<le> y0 + 4"
        by blast+
      fix x' y' assume "visitedBefore (Suc x) y x' y' \<and> inBlock x0 y0 x' y'"
      from cover [OF this] show "x' \<le> maxX ?b" "y' \<le> maxY ?b" by blast+
    qed
    with after show ?thesis
      unfolding boxInv_def step by (simp only: if_True)
  qed
qed

lemma box_row_block:
  assumes final: "\<forall>x < W. final ! (y * W + x) = (if inBlock x0 y0 x y then Some 0 else None)"
    and inv: "boxInv x0 y0 0 y boxes" and n: "n \<le> W"
  shows "boxInv x0 y0 n y (fold (box_step W final y) [0..<n] boxes)"
  using n
proof (induction n)
  case 0
  with inv show ?case by simp
next
  case (Suc n)
  then have n: "n < W" by simp
  with Suc have "boxInv x0 y0 n y (fold (box_step W final y) [0..<n] boxes)" by simp
  from box_step_block [where final = final and W = W, OF _ this] final n show ?case by simp
qed

lemma boxInv_next_row:
  assumes "boxInv x0 y0 W y boxes" and "x0 + 5 \<le> W"
  shows "boxInv x0 y0 0 (Suc y) boxes"
proof -
  have "visitedBefore 0 (Suc y) x0 y0 = visitedBefore W y x0 y0"
    using assms(2) by (auto simp: visitedBefore_def)
  moreover have "(visitedBefore 0 (Suc y) x' y' \<and> inBlock x0 y0 x' y')
      = (visitedBefore W y x' y' \<and> inBlock x0 y0 x' y')" for x' y'
    using assms(2) by (auto simp: visitedBefore_def inBlock_def)
  ultimately show ?thesis
    using assms(1) unfolding boxInv_def by simp
qed

lemma boundingBoxes_rows:
  assumes final: "\<forall>y < H. \<forall>x < W. final ! (y * W + x) = (if inBlock x0 y0 x y then Some 0 else None)"
    and W: "x0 + 5 \<le> W" and m: "m \<le> H"
  shows "boxInv x0 y0 0 m (fold (\<lambda>y. fold (box_step W final y) [0..<W]) [0..<m] [])"
  using m
proof (induction m)
  case 0
  show ?case by (simp add: boxInv_def visitedBefore_def)
next
  case (Suc m)
  then have m: "m < H" by simp
  with Suc have "boxInv x0 y0 0 m (fold (\<lambda>y. fold (box_step W final y) [0..<W]) [0..<m] [])"
    by simp
  from box_row_block [where final = final and W = W, OF _ this order_refl] final m
  have "boxInv x0 y0 W m (fold (\<lambda>y. fold (box_step W final y) [0..<W]) [0..<Suc m] [])"
    by simp
  then show ?case using W by (rule boxInv_next_row)
qed

lemma boundingBoxes_block:
  assumes final: "\<forall>y < H. \<forall>x < W. final ! (y * W + x) = (if inBlock x0 y0 x y then Some 0 else None)"
    and W: "x0 + 5 \<le> W" and H: "y0 + 5 \<le> H"
  shows "\<exists>b. boundingBoxes W H final = [(0, b)]
            \<and> minX b = x0 \<and> minY b = y0 \<and> maxX b = x0 + 4 \<and> maxY b = y0 + 4"
proof -
  from boundingBoxes_rows [OF final W order_refl]
  have inv: "boxInv x0 y0 0 H (boundingBoxes W H final)"
    by (simp add: boundingBoxes_def)
  have started: "visitedBefore 0 H x0 y0"
    using H by (simp add: visitedBefore_def)
  with inv obtain b where b: "boundingBoxes W H final = [(0, b)]" "minX b = x0" "minY b = y0"
      "maxX b \<le> x0 + 4" "maxY b \<le> y0 + 4"
      "\<And>x' y'. visitedBefore 0 H x' y' \<Longrightarrow> inBlock x0 y0 x' y' \<Longrightarrow> x' \<le> maxX b \<and> y' \<le> maxY b"
    unfolding boxInv_def by auto
  have "visitedBefore 0 H (x0 + 4) (y0 + 4)" "inBlock x0 y0 (x0 + 4) (y0 + 4)"
    using H by (simp_all add: visitedBefore_def inBlock_def)
  from b(6) [OF this] b(4,5) have "maxX b = x0 + 4" "maxY b = y0 + 4" by simp_all
  with b show ?thesis by blast
qed


lemma binarize_dims:
  assumes "binarize gray accepts img t = Some bin"
  shows "width bin = width img" and "height bin = height img"
  using assms by (auto simp: binarize_def split: if_splits)

lemma segBox_toSegmentedChar:
  "map segBox (toSegmentedChar ctx2d W final (lbl, b)) =
     (if 5 \<le> boxWidth b \<and> 5 \<le> boxHeight b \<and> ctx2d (boxWidth b) (boxHeight b)
      then [(minX b, minY b, boxWidth b, boxHeight b)] else [])"
  by (auto simp: toSegmentedChar_def Let_def segBox_def boxWidth_def boxHeight_def)

lemma segBox_components:
  "map segBox (concat (map (toSegmentedChar ctx2d W final) boxes)) =
     map (\<lambda>(lbl, b). (minX b, minY b, boxWidth b, boxHeight b))
       (filter (\<lambda>(lbl, b). 5 \<le> boxWidth b \<and> 5 \<le> boxHeight b \<and> ctx2d (boxWidth b) (boxHeight b)) boxes)"
proof (induction boxes)
  case Nil
  show ?case by simp
next
  case (Cons e boxes)
  obtain lbl b where e: "e = (lbl, b)" by (cases e)
  show ?case
    using Cons by (simp add: e segBox_toSegmentedChar)
qed

lemma components_of_boxes:
  assumes "connectedComponentAnalysis gray accepts ctx2d img = Some cs"
  shows "map segBox cs =
     map (\<lambda>(lbl, b). (minX b, minY b, boxWidth b, boxHeight b))
       (filter (\<lambda>(lbl, b). 5 \<le> boxWidth b \<and> 5 \<le> boxHeight b \<and> ctx2d (boxWidth b) (boxHeight b))
          (componentBoxes gray accepts img))"
proof (cases "binarize gray accepts img 128")
  case None
  with assms show ?thesis by (simp add: connectedComponentAnalysis_def)
next
  case (Some bin)
  with assms have "cs = concat (map (toSegmentedChar ctx2d (width bin) (finalLabels (labelPass bin)))
      (componentBoxes gray accepts img))"
    by (simp add: connectedComponentAnalysis_def componentBoxes_def Let_def)
  then show ?thesis by (simp only: segBox_components)
qed

lemma solid_block_component:
  assumes ctx: "ctx2d 5 5" and blk: "solidBlock gray accepts img x0 y0"
  shows "\<exists>c. connectedComponentAnalysis gray accepts ctx2d img = Some [c] \<and> segBox c = (x0, y0, 5, 5)"
proof -
  from blk obtain bin where bin: "binarize gray accepts img 128 = Some bin"
    by (auto simp: solidBlock_def split: option.splits)
  let ?W = "width bin" and ?H = "height bin"
  from blk bin have W: "x0 + 5 \<le> ?W" and H: "y0 + 5 \<le> ?H"
    and fg: "\<forall>y < ?H. \<forall>x < ?W.
               (\<not> atLeast128 (sample bin ((y * ?W + x) * 4))) = inBlock x0 y0 x y"
    by (simp_all add: solidBlock_def)
  from W have x0: "x0 < ?W" by simp
  from labelPass_rows [OF fg x0 order_refl]
  have inv: "blockInv ?W ?H x0 y0 0 ?H (labelPass bin)"
    by (simp add: labelPass_def)
  let ?final = "finalLabels (labelPass bin)"
  from H have "y0 < ?H" by simp
  from finalLabels_block [OF inv this]
  have final: "\<forall>y < ?H. \<forall>x < ?W. ?final ! (y * ?W + x) = (if inBlock x0 y0 x y then Some 0 else None)"
    by simp
  from boundingBoxes_block [OF final W H]
  obtain b where b: "boundingBoxes ?W ?H ?final = [(0, b)]" "minX b = x0" "minY b = y0"
    "maxX b = x0 + 4" "maxY b = y0 + 4"
    by blast
  have "toSegmentedChar ctx2d ?W ?final (0, b) =
      [\<lparr>seg_x = x0, seg_y = y0, seg_width = 5, seg_height = 5,
        seg_imageData = componentImage ?W ?final 0 b\<rparr>]"
    using ctx b by (simp add: toSegmentedChar_def)
  then show ?thesis
    by (simp add: connectedComponentAnalysis_def bin Let_def b(1) segBox_def)
qed

text \<open>
  Claim C9. When the binarization of the image is a single solid block of 5 by 5
  foreground pixels, and the platform gives a drawing context for a canvas of 5 by 5,
  \<^verbatim>\<open>connectedComponentAnalysis\<close> returns exactly one component, whose box
  \<open>(x, y, width, height)\<close> is the block. For every image on which it returns, every
  component of the output is at least 5 wide and 5 high, and the boxes of the output are
  the bounding boxes of the components of the binarization without those narrower or
  lower than 5 (and without those for which the platform gives no drawing context), in
  the same order.
\<close>

theorem connected_components_block_and_filter:
  "(ctx2d 5 5 \<and> solidBlock gray accepts img x0 y0 \<longrightarrow>
      (\<exists>c. connectedComponentAnalysis gray accepts ctx2d img = Some [c]
           \<and> segBox c = (x0, y0, 5, 5)))
   \<and> (\<forall>cs. connectedComponentAnalysis gray accepts ctx2d img = Some cs \<longrightarrow>
         (\<forall>c \<in> set cs. 5 \<le> seg_width c \<and> 5 \<le> seg_height c)
         \<and> map segBox cs =
             map (\<lambda>(lbl, b). (minX b, minY b, boxWidth b, boxHeight b))
               (filter (\<lambda>(lbl, b). 5 \<le> boxWidth b \<and> 5 \<le> boxHeight b
                                   \<and> ctx2d (boxWidth b) (boxHeight b))
                  (componentBoxes gray accepts img)))"
proof (intro conjI impI allI ballI)
  assume "ctx2d 5 5 \<and> solidBlock gray accepts img x0 y0"
  then show "\<exists>c. connectedComponentAnalysis gray accepts ctx2d img = Some [c]
      \<and> segBox c = (x0, y0, 5, 5)"
    using solid_block_component by blast
next
  fix cs assume cs: "connectedComponentAnalysis gray accepts ctx2d img = Some cs"
  then show boxes: "map segBox cs =
       map (\<lambda>(lbl, b). (minX b, minY b, boxWidth b, boxHeight b))
         (filter (\<lambda>(lbl, b). 5 \<le> boxWidth b \<and> 5 \<le> boxHeight b \<and> ctx2d (boxWidth b) (boxHeight b))
            (componentBoxes gray accepts img))"
    by (rule components_of_boxes)
  fix c assume "c \<in> set cs"
  then have "segBox c \<in> set (map segBox cs)" by simp
  then have "5 \<le> seg_width c \<and> 5 \<le> seg_height c"
    unfolding boxes by (auto simp: segBox_def)
  then show "5 \<le> seg_width c" "5 \<le> seg_height c" by simp_all
qed

text \<open>
  The black square of side 5 is such an image: its binarization is the solid block at
  \<open>(0, 0)\<close>, and the analysis returns the one component with the box \<open>(0, 0, 5, 5)\<close>.
\<close>

lemma black_square_solid: "solidBlock realLuma fitsImage blackSquare 0 0"
  by code_simp

theorem connected_components_witness:
  "(\<lambda>w h. True) 5 5 \<and> solidBlock realLuma fitsImage blackSquare 0 0
   \<and> (\<exists>c. connectedComponentAnalysis realLuma fitsImage (\<lambda>w h. True) blackSquare = Some [c]
          \<and> segBox c = (0, 0, 5, 5) \<and> 5 \<le> seg_width c \<and> 5 \<le> seg_height c)"
proof -
  from connected_components_block_and_filter
    [of "\<lambda>w h. True" realLuma fitsImage blackSquare 0 0] black_square_solid
  obtain c where c: "connectedComponentAnalysis realLuma fitsImage (\<lambda>w h. True) blackSquare = Some [c]"
      "segBox c = (0, 0, 5, 5)"
    by auto
  from connected_components_block_and_filter
    [of "\<lambda>w h. True" realLuma fitsImage blackSquare 0 0] c(1)
  have "5 \<le> seg_width c \<and> 5 \<le> seg_height c" by simp
  with c black_square_solid show ?thesis by blast
qed

end
